theory Spec2Isabelle
  imports Main
begin

section \<open>Python strings\<close>

text \<open>
  A Python \<open>str\<close> is a sequence of Unicode code points. The bullet marker U+2022 of
  \<open>parse_section\<close> does not fit into an 8-bit character, so a character is modelled by
  its code point and a string by the list of its code points. \<open>ustr\<close> reads an ASCII
  literal.
\<close>

type_synonym uchar = nat
type_synonym ustring = "nat list"

definition ustr :: "string \<Rightarrow> ustring" where
  "ustr s = map of_char s"

definition in_ranges :: "(nat \<times> nat) list \<Rightarrow> uchar \<Rightarrow> bool" where
  "in_ranges rs c = list_ex (\<lambda>(lo, hi). lo \<le> c \<and> c \<le> hi) rs"

text \<open>
  The character classes are those of CPython 3.11 (Unicode 14.0.0), as inclusive code
  point ranges: \<open>str.isspace\<close> (used by \<open>str.strip()\<close>), \<open>str.isdigit\<close>
  (Numeric_Type Digit or Decimal) and \<open>str.isdecimal\<close> (category Nd, which is what
  \<open>\d\<close> matches in a \<open>str\<close> pattern).
\<close>

definition isspace :: "uchar \<Rightarrow> bool" where
  "isspace c = in_ranges
    [(9, 13), (28, 32), (133, 133), (160, 160), (5760, 5760), (8192, 8202),
     (8232, 8233), (8239, 8239), (8287, 8287), (12288, 12288)] c"

definition isdigit :: "uchar \<Rightarrow> bool" where
  "isdigit c = in_ranges
    [(48, 57), (178, 179), (185, 185), (1632, 1641), (1776, 1785), (1984, 1993),
     (2406, 2415), (2534, 2543), (2662, 2671), (2790, 2799), (2918, 2927),
     (3046, 3055), (3174, 3183), (3302, 3311), (3430, 3439), (3558, 3567),
     (3664, 3673), (3792, 3801), (3872, 3881), (4160, 4169), (4240, 4249),
     (4969, 4977), (6112, 6121), (6160, 6169), (6470, 6479), (6608, 6618),
     (6784, 6793), (6800, 6809), (6992, 7001), (7088, 7097), (7232, 7241),
     (7248, 7257), (8304, 8304), (8308, 8313), (8320, 8329), (9312, 9320),
     (9332, 9340), (9352, 9360), (9450, 9450), (9461, 9469), (9471, 9471),
     (10102, 10110), (10112, 10120), (10122, 10130), (42528, 42537),
     (43216, 43225), (43264, 43273), (43472, 43481), (43504, 43513),
     (43600, 43609), (44016, 44025), (65296, 65305), (66720, 66729),
     (68160, 68163), (68912, 68921), (69216, 69224), (69714, 69722),
     (69734, 69743), (69872, 69881), (69942, 69951), (70096, 70105),
     (70384, 70393), (70736, 70745), (70864, 70873), (71248, 71257),
     (71360, 71369), (71472, 71481), (71904, 71913), (72016, 72025),
     (72784, 72793), (73040, 73049), (73120, 73129), (92768, 92777),
     (92864, 92873), (93008, 93017), (120782, 120831), (123200, 123209),
     (123632, 123641), (125264, 125273), (127232, 127242), (130032, 130041)] c"

definition isdecimal :: "uchar \<Rightarrow> bool" where
  "isdecimal c = in_ranges
    [(48, 57), (1632, 1641), (1776, 1785), (1984, 1993), (2406, 2415),
     (2534, 2543), (2662, 2671), (2790, 2799), (2918, 2927), (3046, 3055),
     (3174, 3183), (3302, 3311), (3430, 3439), (3558, 3567), (3664, 3673),
     (3792, 3801), (3872, 3881), (4160, 4169), (4240, 4249), (6112, 6121),
     (6160, 6169), (6470, 6479), (6608, 6617), (6784, 6793), (6800, 6809),
     (6992, 7001), (7088, 7097), (7232, 7241), (7248, 7257), (42528, 42537),
     (43216, 43225), (43264, 43273), (43472, 43481), (43504, 43513),
     (43600, 43609), (44016, 44025), (65296, 65305), (66720, 66729),
     (68912, 68921), (69734, 69743), (69872, 69881), (69942, 69951),
     (70096, 70105), (70384, 70393), (70736, 70745), (70864, 70873),
     (71248, 71257), (71360, 71369), (71472, 71481), (71904, 71913),
     (72016, 72025), (72784, 72793), (73040, 73049), (73120, 73129),
     (92768, 92777), (92864, 92873), (93008, 93017), (120782, 120831),
     (123200, 123209), (123632, 123641), (125264, 125273), (130032, 130041)] c"

text \<open>\<open>s.strip()\<close>: whitespace removed at both ends.\<close>

definition strip :: "ustring \<Rightarrow> ustring" where
  "strip s = rev (dropWhile isspace (rev (dropWhile isspace s)))"

text \<open>\<open>s.lstrip(chars)\<close>: the longest leading run of characters of \<open>chars\<close> removed.\<close>

definition lstrip_chars :: "ustring \<Rightarrow> ustring \<Rightarrow> ustring" where
  "lstrip_chars chars s = dropWhile (\<lambda>c. c \<in> set chars) s"

text \<open>
  \<open>s.split(sep)\<close> for a one-character separator: never the empty list, \<open>''.split(sep)\<close>
  is \<open>['']\<close>.
\<close>

fun split_on :: "uchar \<Rightarrow> ustring \<Rightarrow> ustring list" where
  "split_on sep [] = [[]]"
| "split_on sep (c # cs) =
     (if c = sep then [] # split_on sep cs
      else (case split_on sep cs of
              [] \<Rightarrow> [[c]]
            | w # ws \<Rightarrow> (c # w) # ws))"

text \<open>\<open>sep.join(xs)\<close>.\<close>

fun py_join :: "ustring \<Rightarrow> ustring list \<Rightarrow> ustring" where
  "py_join sep [] = []"
| "py_join sep [x] = x"
| "py_join sep (x # y # ys) = x @ sep @ py_join sep (y # ys)"

definition startswith :: "ustring \<Rightarrow> ustring \<Rightarrow> bool" where
  "startswith s p = (take (length p) s = p)"

abbreviation NL :: uchar where "NL \<equiv> 10"
abbreviation SPACE :: uchar where "SPACE \<equiv> 32"
abbreviation ASTERISK :: uchar where "ASTERISK \<equiv> 42"
abbreviation HYPHEN :: uchar where "HYPHEN \<equiv> 45"
abbreviation COLON :: uchar where "COLON \<equiv> 58"
abbreviation BULLET :: uchar where "BULLET \<equiv> 8226"

section \<open>The day-marker pattern and \<open>re.split\<close>\<close>

text \<open>
  \<open>\d+:\<close> at the head of a string: the greedy run of decimal digits is not empty and a
  colon follows it (a colon is no digit, so no shorter run can match).
\<close>

definition digits_colon :: "ustring \<Rightarrow> bool" where
  "digits_colon s =
     (takeWhile isdecimal s \<noteq> [] \<and>
      (case dropWhile isdecimal s of [] \<Rightarrow> False | c # _ \<Rightarrow> c = COLON))"

text \<open>
  \<open>re.match(r'Day \d+:|DAY \d+:', s)\<close> succeeds: one of the two alternatives matches at
  position 0. The pattern is compiled without flags.
\<close>

definition day_marker :: "ustring \<Rightarrow> bool" where
  "day_marker s =
     (startswith s (ustr ''Day '') \<and> digits_colon (drop 4 s) \<or>
      startswith s (ustr ''DAY '') \<and> digits_colon (drop 4 s))"

text \<open>
  \<open>re.split(r'(?=Day \d+:|DAY \d+:)', s)\<close>. The pattern is a lookahead, so every match
  is empty. The split loop of CPython searches from the end of the last match, emits the
  segment between the last match and the new one (the empty string for a match at
  position 0), and after an empty match requires the next one to lie further right;
  the segment after the last match closes the list. \<open>seg\<close> is the segment read since
  the last match.
\<close>

fun re_split_from :: "ustring \<Rightarrow> ustring \<Rightarrow> ustring list" where
  "re_split_from seg [] = [seg]"
| "re_split_from seg (c # cs) =
     (if day_marker (c # cs) then seg # re_split_from [c] cs
      else re_split_from (seg @ [c]) cs)"

definition re_split :: "ustring \<Rightarrow> ustring list" where
  "re_split s = re_split_from [] s"

section \<open>\<open>parse_section\<close>\<close>

record section_dict =
  header :: ustring
  points :: "ustring list"
  info :: ustring

record parse_state =
  sections :: "section_dict list"
  current_section :: section_dict
  info_block :: "ustring list"

definition new_section :: "ustring \<Rightarrow> section_dict" where
  "new_section h = \<lparr>header = h, points = [], info = []\<rparr>"

text \<open>\<open>if current_section['header'] or current_section['points']\<close>\<close>

definition keep :: "section_dict \<Rightarrow> bool" where
  "keep s = (header s \<noteq> [] \<or> points s \<noteq> [])"

text \<open>
  \<open>':' in line and not any(char.isdigit() for char in line.split(':')[0])\<close>
\<close>

definition is_header :: "ustring \<Rightarrow> bool" where
  "is_header line = (COLON \<in> set line \<and> \<not> list_ex isdigit (hd (split_on COLON line)))"

text \<open>\<open>line.startswith(('\<bullet>', '-', '*'))\<close>\<close>

definition is_bullet :: "ustring \<Rightarrow> bool" where
  "is_bullet line =
     (startswith line [BULLET] \<or> startswith line [HYPHEN] \<or> startswith line [ASTERISK])"

text \<open>
  The body of the loop over the lines. \<open>clean_text\<close> is imported from \<open>utils\<close>, which is
  not among the sources, so it is the parameter \<open>clean\<close>.
\<close>

definition parse_line :: "(ustring \<Rightarrow> ustring) \<Rightarrow> parse_state \<Rightarrow> ustring \<Rightarrow> parse_state" where
  "parse_line clean st raw =
     (let line = strip raw in
      if line = [] then
        (if info_block st \<noteq> [] then
           st\<lparr>current_section := (current_section st)\<lparr>info := py_join [SPACE] (info_block st)\<rparr>,
              info_block := []\<rparr>
         else st)
      else if is_header line then
        st\<lparr>sections := (if keep (current_section st) then sections st @ [current_section st]
                         else sections st),
           current_section := new_section line,
           info_block := []\<rparr>
      else if is_bullet line then
        (let point = clean (lstrip_chars [BULLET, HYPHEN, ASTERISK, SPACE] line) in
         if point \<noteq> [] then
           st\<lparr>current_section :=
                (current_section st)\<lparr>points := points (current_section st) @ [point]\<rparr>\<rparr>
         else st)
      else st\<lparr>info_block := info_block st @ [line]\<rparr>)"

definition parse_init :: parse_state where
  "parse_init = \<lparr>sections = [], current_section = new_section [], info_block = []\<rparr>"

text \<open>The two statements after the loop.\<close>

definition parse_finish :: "parse_state \<Rightarrow> section_dict list" where
  "parse_finish st =
     (let cur = (if info_block st \<noteq> [] then
                   (current_section st)\<lparr>info := py_join [SPACE] (info_block st)\<rparr>
                 else current_section st)
      in if keep cur then sections st @ [cur] else sections st)"

definition parse_section :: "(ustring \<Rightarrow> ustring) \<Rightarrow> ustring \<Rightarrow> section_dict list" where
  "parse_section clean content =
     parse_finish (foldl (parse_line clean) parse_init (split_on NL content))"

text \<open>
  Modelled from the spec: \<open>utils.clean_text\<close> is not among the sources. The spec describes
  it as a text-cleaning utility that, given a raw string, returns a normalized string
  (trim, collapse internal whitespace). It is used where a concrete cleaning pass is
  needed to run \<open>parse_section\<close> on an input.
\<close>

fun collapse_ws :: "ustring \<Rightarrow> ustring" where
  "collapse_ws [] = []"
| "collapse_ws [c] = (if isspace c then [SPACE] else [c])"
| "collapse_ws (c # d # cs) =
     (if isspace c then (if isspace d then collapse_ws (d # cs) else SPACE # collapse_ws (d # cs))
      else c # collapse_ws (d # cs))"

definition clean_text :: "ustring \<Rightarrow> ustring" where
  "clean_text s = collapse_ws (strip s)"

section \<open>Dates and numbers as text\<close>

text \<open>
  \<open>start_date\<close> and \<open>end_date\<close> are calendar dates (\<open>datetime.date\<close>). Their difference
  is a \<open>timedelta\<close> whose \<open>days\<close> is the difference of the proleptic Gregorian ordinals,
  computed as \<open>datetime\<close> does.
\<close>

record pydate =
  year :: int
  month :: int
  day :: int

definition is_leap :: "int \<Rightarrow> bool" where
  "is_leap y = (y mod 4 = 0 \<and> (y mod 100 \<noteq> 0 \<or> y mod 400 = 0))"

definition days_before_year :: "int \<Rightarrow> int" where
  "days_before_year y = (y - 1) * 365 + (y - 1) div 4 - (y - 1) div 100 + (y - 1) div 400"

definition days_in_month :: "int \<Rightarrow> int \<Rightarrow> int" where
  "days_in_month y m =
     (if m = 2 \<and> is_leap y then 29
      else [31, 28, 31, 30, 31, 30, 31, 31, 30, 31, 30, 31] ! nat (m - 1))"

definition days_before_month :: "int \<Rightarrow> int \<Rightarrow> int" where
  "days_before_month y m =
     [0, 31, 59, 90, 120, 151, 181, 212, 243, 273, 304, 334] ! nat (m - 1) +
     (if m > 2 \<and> is_leap y then 1 else 0)"

text \<open>The dates the constructor of \<open>datetime.date\<close> accepts.\<close>

definition valid_date :: "pydate \<Rightarrow> bool" where
  "valid_date d =
     (1 \<le> year d \<and> year d \<le> 9999 \<and> 1 \<le> month d \<and> month d \<le> 12 \<and>
      1 \<le> day d \<and> day d \<le> days_in_month (year d) (month d))"

definition toordinal :: "pydate \<Rightarrow> int" where
  "toordinal d = days_before_year (year d) + days_before_month (year d) (month d) + day d"

text \<open>\<open>(e - s).days\<close>\<close>

definition days_between :: "pydate \<Rightarrow> pydate \<Rightarrow> int" where
  "days_between e s = toordinal e - toordinal s"

text \<open>\<open>str(n)\<close> for an \<open>int\<close>: decimal digits, with a minus sign below zero.\<close>

fun str_nat :: "nat \<Rightarrow> ustring" where
  "str_nat n = (if n < 10 then [48 + n] else str_nat (n div 10) @ [48 + n mod 10])"

declare str_nat.simps [simp del]

definition str_int :: "int \<Rightarrow> ustring" where
  "str_int i = (if i < 0 then HYPHEN # str_nat (nat (- i)) else str_nat (nat i))"

text \<open>\<open>'%0*d' % (w, n)\<close> for \<open>n \<ge> 0\<close>: zeros on the left up to the width.\<close>

definition zero_pad :: "nat \<Rightarrow> int \<Rightarrow> ustring" where
  "zero_pad w n = (let s = str_int n in replicate (w - length s) 48 @ s)"

text \<open>\<open>str(d)\<close> of a date is \<open>'%04d-%02d-%02d' % (year, month, day)\<close>.\<close>

definition str_date :: "pydate \<Rightarrow> ustring" where
  "str_date d = zero_pad 4 (year d) @ [HYPHEN] @ zero_pad 2 (month d) @ [HYPHEN] @ zero_pad 2 (day d)"

section \<open>The story of \<open>generate_trip_pdf\<close>\<close>

text \<open>
  The story is the list of flowables handed to \<open>doc.build\<close>. A paragraph keeps its text
  and the key of its style in the sheet of \<open>create_custom_styles\<close>; a table keeps its
  cells, column widths, row heights (when given) and which of the two \<open>TableStyle\<close>
  command lists it received (they hold colours, fonts and paddings only); a spacer its
  width and height. A cell of the summary table is a string or, for the two date rows,
  the date object itself.

  The constructor of a paragraph parses its text as markup and raises \<open>ValueError\<close> on a
  text it cannot parse (an opening tag that is never closed, for one); the texts of
  \<open>generate_trip_pdf\<close> are not escaped. The parser belongs to the rendering library, so
  it is the parameter \<open>markup_ok\<close>: whether the library parses a text. A table takes the
  strings of its cells as they are, and a spacer has no text.
\<close>

datatype error = ValueError

datatype style_key = CustomTitle | CustomSubtitle | DayHeader | SectionHeader | BulletPoint | InfoBox

datatype table_style = SeparatorStyle | OverviewStyle

datatype cell = Str ustring | Date pydate

datatype flowable =
    Paragraph ustring style_key
  | Table "cell list list" "nat list" "nat list option" table_style
  | Spacer nat nat

definition add_separator :: "flowable list \<Rightarrow> nat \<Rightarrow> flowable list" where
  "add_separator story width =
     story @ [Table [[Str []]] [width] (Some [2]) SeparatorStyle, Spacer 1 10]"

record trip_details =
  start_location :: ustring
  destination :: ustring
  start_date :: pydate
  end_date :: pydate
  duration :: int

definition create_overview_table :: "trip_details \<Rightarrow> flowable" where
  "create_overview_table td =
     Table
       [[Str (ustr ''Trip Summary''), Str []],
        [Str (ustr ''Departure''), Str (start_location td)],
        [Str (ustr ''Destination''), Str (destination td)],
        [Str (ustr ''Start Date''), Date (start_date td)],
        [Str (ustr ''End Date''), Date (end_date td)],
        [Str (ustr ''Duration''), Str (str_int (duration td) @ ustr '' days'')]]
       [120, 300] None OverviewStyle"

text \<open>\<open>story.append(Paragraph(text, style))\<close>\<close>

definition append_paragraph ::
  "(ustring \<Rightarrow> bool) \<Rightarrow> flowable list \<Rightarrow> ustring \<Rightarrow> style_key \<Rightarrow> error + flowable list" where
  "append_paragraph markup_ok story text style =
     (if markup_ok text then Inr (story @ [Paragraph text style]) else Inl ValueError)"

text \<open>A loop whose body may raise: it stops at the first error.\<close>

fun for_each :: "('s \<Rightarrow> 'a \<Rightarrow> error + 's) \<Rightarrow> 's \<Rightarrow> 'a list \<Rightarrow> error + 's" where
  "for_each body st [] = Inr st"
| "for_each body st (x # xs) =
     (case body st x of Inl e \<Rightarrow> Inl e | Inr st' \<Rightarrow> for_each body st' xs)"

text \<open>The body of \<open>for section in sections\<close>.\<close>

definition section_story ::
  "(ustring \<Rightarrow> bool) \<Rightarrow> flowable list \<Rightarrow> section_dict \<Rightarrow> error + flowable list" where
  "section_story markup_ok story s =
     (case (if header s \<noteq> [] then append_paragraph markup_ok story (header s) SectionHeader
            else Inr story) of
        Inl e \<Rightarrow> Inl e
      | Inr story1 \<Rightarrow>
          (case (if info s \<noteq> [] then append_paragraph markup_ok story1 (info s) InfoBox
                 else Inr story1) of
             Inl e \<Rightarrow> Inl e
           | Inr story2 \<Rightarrow>
               (case for_each
                       (\<lambda>st point. append_paragraph markup_ok st ([BULLET, SPACE] @ point) BulletPoint)
                       story2 (points s) of
                  Inl e \<Rightarrow> Inl e
                | Inr story3 \<Rightarrow> Inr (story3 @ [Spacer 1 8]))))"

text \<open>
  The body of \<open>for day in days\<close>: a blank chunk adds nothing; otherwise the header is the
  first line of a chunk that matches the day pattern at its start, and the fixed label
  for any other chunk.
\<close>

definition day_header :: "ustring \<Rightarrow> ustring" where
  "day_header d = (if day_marker d then hd (split_on NL d) else ustr ''Trip Overview'')"

definition day_content :: "ustring \<Rightarrow> ustring" where
  "day_content d = (if day_marker d then py_join [NL] (tl (split_on NL d)) else d)"

definition day_story ::
  "(ustring \<Rightarrow> bool) \<Rightarrow> (ustring \<Rightarrow> ustring) \<Rightarrow> flowable list \<Rightarrow> ustring \<Rightarrow> error + flowable list" where
  "day_story markup_ok clean story d =
     (if strip d \<noteq> [] then
        (case append_paragraph markup_ok story (day_header d) DayHeader of
           Inl e \<Rightarrow> Inl e
         | Inr story1 \<Rightarrow>
             (case for_each (section_story markup_ok) story1
                     (parse_section clean (day_content d)) of
                Inl e \<Rightarrow> Inl e
              | Inr story2 \<Rightarrow> Inr (add_separator story2 450)))
      else Inr story)"

text \<open>
  \<open>generate_trip_pdf\<close>, up to the call of \<open>doc.build\<close>: the story it has built, or the
  error of the first paragraph whose text the library does not parse. The temporary
  file, the document template and the page callbacks do not enter the story.
\<close>

definition generate_trip_pdf ::
  "(ustring \<Rightarrow> bool) \<Rightarrow> (ustring \<Rightarrow> ustring) \<Rightarrow> ustring \<Rightarrow> ustring \<Rightarrow> ustring \<Rightarrow> pydate \<Rightarrow> pydate
     \<Rightarrow> error + flowable list" where
  "generate_trip_pdf markup_ok clean trip_plan start_loc dest start_d end_d =
     (let title = ustr ''Travel Itinerary'' @ [NL] @ start_loc @ ustr '' to '' @ dest in
      case append_paragraph markup_ok [] title CustomTitle of
        Inl e \<Rightarrow> Inl e
      | Inr story1 \<Rightarrow>
          (let date_range =
                 ustr ''Journey Dates: '' @ str_date start_d @ ustr '' - '' @ str_date end_d in
           case append_paragraph markup_ok story1 date_range CustomSubtitle of
             Inl e \<Rightarrow> Inl e
           | Inr story2 \<Rightarrow>
               (let td = \<lparr>start_location = start_loc, destination = dest, start_date = start_d,
                          end_date = end_d, duration = days_between end_d start_d + 1\<rparr>;
                    story3 = story2 @ [create_overview_table td];
                    story4 = story3 @ [Spacer 1 20];
                    story5 = add_separator story4 450;
                    days = re_split trip_plan
                in for_each (day_story markup_ok clean) story5 days)))"

text \<open>
  The DayBlocks of a story, read back from it: the texts of its paragraphs in the
  day-header style, in order.
\<close>

fun day_block_headers :: "flowable list \<Rightarrow> ustring list" where
  "day_block_headers [] = []"
| "day_block_headers (Paragraph t DayHeader # fs) = t # day_block_headers fs"
| "day_block_headers (f # fs) = day_block_headers fs"

section \<open>Notions the properties are stated with\<close>

text \<open>
  The number of positions of a text at which the day pattern matches, wherever they lie
  in their lines.
\<close>

fun count_markers :: "ustring \<Rightarrow> nat" where
  "count_markers [] = 0"
| "count_markers (c # cs) = (if day_marker (c # cs) then 1 else 0) + count_markers cs"

text \<open>The positions themselves, in increasing order.\<close>

definition marker_positions :: "ustring \<Rightarrow> nat list" where
  "marker_positions s = filter (\<lambda>p. day_marker (drop p s)) [0..<length s]"

text \<open>
  The lines of a text that begin with a day marker (the glossary's day marker: a line
  beginning with the word, a space, an integer and a colon).
\<close>

definition day_marker_lines :: "ustring \<Rightarrow> ustring list" where
  "day_marker_lines plan = filter day_marker (split_on NL plan)"

text \<open>
  Slicing at given positions: \<open>cut_at start [p1, ..., pk] s\<close> is
  \<open>[s[start:p1], s[p1:p2], ..., s[pk:]]\<close>.
\<close>

fun cut_at :: "nat \<Rightarrow> nat list \<Rightarrow> ustring \<Rightarrow> ustring list" where
  "cut_at start [] s = [drop start s]"
| "cut_at start (p # ps) s = take (p - start) (drop start s) # cut_at p ps s"

text \<open>
  The text of a match of the day pattern: one of the two spellings of the word, a space,
  one or more decimal digits, a colon.
\<close>

definition marker_text :: "ustring \<Rightarrow> bool" where
  "marker_text m =
     (\<exists>w ds. (w = [68, 97, 121, 32] \<or> w = [68, 65, 89, 32]) \<and> ds \<noteq> [] \<and>
             (\<forall>d\<in>set ds. isdecimal d) \<and> m = w @ ds @ [58])"

text \<open>
  What the three loops of the story append when every paragraph is built: the flowables
  of a section, of a day chunk, and the whole story. The lemmas below show that
  \<open>section_story\<close>, \<open>day_story\<close> and \<open>generate_trip_pdf\<close> return these values
  whenever they return a story.
\<close>

definition section_built :: "flowable list \<Rightarrow> section_dict \<Rightarrow> flowable list" where
  "section_built story s =
     (let story1 = (if header s \<noteq> [] then story @ [Paragraph (header s) SectionHeader] else story);
          story2 = (if info s \<noteq> [] then story1 @ [Paragraph (info s) InfoBox] else story1);
          story3 = foldl (\<lambda>st point. st @ [Paragraph ([BULLET, SPACE] @ point) BulletPoint])
                     story2 (points s)
      in story3 @ [Spacer 1 8])"

definition day_built :: "(ustring \<Rightarrow> ustring) \<Rightarrow> flowable list \<Rightarrow> ustring \<Rightarrow> flowable list" where
  "day_built clean story d =
     (if strip d \<noteq> [] then
        (let story1 = story @ [Paragraph (day_header d) DayHeader];
             story2 = foldl section_built story1 (parse_section clean (day_content d))
         in add_separator story2 450)
      else story)"

definition story_built ::
  "(ustring \<Rightarrow> ustring) \<Rightarrow> ustring \<Rightarrow> ustring \<Rightarrow> ustring \<Rightarrow> pydate \<Rightarrow> pydate \<Rightarrow> flowable list" where
  "story_built clean trip_plan start_loc dest start_d end_d =
     (let title = ustr ''Travel Itinerary'' @ [NL] @ start_loc @ ustr '' to '' @ dest;
          story1 = [] @ [Paragraph title CustomTitle];
          date_range = ustr ''Journey Dates: '' @ str_date start_d @ ustr '' - '' @ str_date end_d;
          story2 = story1 @ [Paragraph date_range CustomSubtitle];
          td = \<lparr>start_location = start_loc, destination = dest, start_date = start_d,
                end_date = end_d, duration = days_between end_d start_d + 1\<rparr>;
          story3 = story2 @ [create_overview_table td];
          story4 = story3 @ [Spacer 1 20];
          story5 = add_separator story4 450;
          days = re_split trip_plan
      in foldl (day_built clean) story5 days)"

text \<open>
  Whether every paragraph of a section, of a day chunk and of the whole story is built.
\<close>

definition section_ok :: "(ustring \<Rightarrow> bool) \<Rightarrow> section_dict \<Rightarrow> bool" where
  "section_ok markup_ok s =
     ((header s = [] \<or> markup_ok (header s)) \<and> (info s = [] \<or> markup_ok (info s)) \<and>
      list_all (\<lambda>p. markup_ok ([BULLET, SPACE] @ p)) (points s))"

definition day_ok :: "(ustring \<Rightarrow> bool) \<Rightarrow> (ustring \<Rightarrow> ustring) \<Rightarrow> ustring \<Rightarrow> bool" where
  "day_ok markup_ok clean d =
     (strip d = [] \<or>
      markup_ok (day_header d) \<and> list_all (section_ok markup_ok) (parse_section clean (day_content d)))"

definition story_ok ::
  "(ustring \<Rightarrow> bool) \<Rightarrow> (ustring \<Rightarrow> ustring) \<Rightarrow> ustring \<Rightarrow> ustring \<Rightarrow> ustring \<Rightarrow> pydate \<Rightarrow> pydate \<Rightarrow> bool" where
  "story_ok markup_ok clean trip_plan start_loc dest start_d end_d =
     (markup_ok (ustr ''Travel Itinerary'' @ [NL] @ start_loc @ ustr '' to '' @ dest) \<and>
      markup_ok (ustr ''Journey Dates: '' @ str_date start_d @ ustr '' - '' @ str_date end_d) \<and>
      list_all (day_ok markup_ok clean) (re_split trip_plan))"

text \<open>
  A markup parser to run the functions with: it accepts exactly the texts without
  \<open><\<close>. Such a text holds no tag and the library builds its paragraph; the text
  \<open><b>\<close> opens a tag that is never closed, and the library raises \<open>ValueError\<close> on a
  paragraph text that holds it and no closing tag. Only texts of these two kinds are
  run below.
\<close>

definition markup_plain :: "ustring \<Rightarrow> bool" where
  "markup_plain t = list_all (\<lambda>c. c \<noteq> 60) t"

text \<open>
  The non-empty headers and the points of a parse state, the current section included, in
  the order in which they were opened and stored.
\<close>

definition headers_of :: "parse_state \<Rightarrow> ustring list" where
  "headers_of st = filter (\<lambda>h. h \<noteq> []) (map header (sections st @ [current_section st]))"

definition points_of :: "parse_state \<Rightarrow> ustring list" where
  "points_of st = concat (map points (sections st @ [current_section st]))"

text \<open>What the bullet branch of the loop computes from a line.\<close>

definition stored_point :: "(ustring \<Rightarrow> ustring) \<Rightarrow> ustring \<Rightarrow> ustring" where
  "stored_point clean l = clean (lstrip_chars [BULLET, HYPHEN, ASTERISK, SPACE] l)"

text \<open>
  A bullet line with exactly its one leading marker and the whitespace around it removed:
  the reading of the bullet rule that removes a single marker.
\<close>

definition strip_one_marker :: "ustring \<Rightarrow> ustring" where
  "strip_one_marker l = strip (tl l)"

text \<open>
  An info line: a line that is not blank, no header line and no bullet line.
\<close>

definition info_line :: "ustring \<Rightarrow> bool" where
  "info_line l = (l \<noteq> [] \<and> \<not> is_header l \<and> \<not> is_bullet l)"

text \<open>The paragraphs of a list of stripped lines: the runs of lines between blank lines.\<close>

fun paragraphs :: "ustring list \<Rightarrow> ustring list list" where
  "paragraphs [] = [[]]"
| "paragraphs (l # ls) =
     (if l = [] then [] # paragraphs ls
      else (case paragraphs ls of [] \<Rightarrow> [[l]] | p # ps \<Rightarrow> (l # p) # ps))"

text \<open>
  The info lines of each paragraph of a body, the first paragraph continuing a block \<open>ib\<close>
  that is already open.
\<close>

fun blocks_from :: "ustring list \<Rightarrow> ustring list \<Rightarrow> ustring list list" where
  "blocks_from ib [] = [ib]"
| "blocks_from ib (l # ls) =
     (if l = [] then ib # blocks_from [] ls
      else if info_line l then blocks_from (ib @ [l]) ls
      else blocks_from ib ls)"

text \<open>
  The space-join of the last block that is not empty, and \<open>i\<close> when every block is empty.
\<close>

definition last_info :: "ustring \<Rightarrow> ustring list list \<Rightarrow> ustring" where
  "last_info i bs =
     (if filter (\<lambda>b. b \<noteq> []) bs = [] then i
      else py_join [SPACE] (last (filter (\<lambda>b. b \<noteq> []) bs)))"

text \<open>The points stored for the bullet lines of a body.\<close>

definition body_points :: "(ustring \<Rightarrow> ustring) \<Rightarrow> ustring list \<Rightarrow> ustring list" where
  "body_points clean bd = filter (\<lambda>p. p \<noteq> []) (map (stored_point clean) (filter is_bullet bd))"

text \<open>
  The info of a body as the loop leaves it: the last block that is not empty among the
  blocks closed by a blank line, and, for the body that ends the content, the last block
  as well.
\<close>

definition flushed_info :: "bool \<Rightarrow> ustring list \<Rightarrow> ustring" where
  "flushed_info final bd =
     (let bs = blocks_from [] bd in last_info [] (if final then bs else butlast bs))"

text \<open>
  The info of a body by paragraphs: the space-join of the info lines of its last paragraph
  that has any.
\<close>

definition paragraph_info :: "ustring list \<Rightarrow> ustring" where
  "paragraph_info bd = last_info [] (map (filter info_line) (paragraphs bd))"

text \<open>
  The info of a body as the data model words it: the space-join of all its info lines.
\<close>

definition claimed_info :: "ustring list \<Rightarrow> ustring" where
  "claimed_info bd = py_join [SPACE] (filter info_line bd)"

text \<open>
  The stripped lines of a content, cut before each header line: the lines before the first
  header line, and each header line with the body lines that follow it.
\<close>

fun header_groups :: "ustring list \<Rightarrow> ustring list \<times> (ustring \<times> ustring list) list" where
  "header_groups [] = ([], [])"
| "header_groups (l # ls) =
     (case header_groups ls of
        (pre, gs) \<Rightarrow> if is_header l then ([], (l, pre) # gs) else (l # pre, gs))"

text \<open>
  One section per header line, with the points of its body and the info that \<open>info_fn\<close>
  gives for its body; \<open>info_fn\<close> is told whether the body ends the content.
\<close>

fun group_sections ::
  "(bool \<Rightarrow> ustring list \<Rightarrow> ustring) \<Rightarrow> (ustring \<Rightarrow> ustring) \<Rightarrow> (ustring \<times> ustring list) list \<Rightarrow> section_dict list" where
  "group_sections info_fn clean [] = []"
| "group_sections info_fn clean ((h, bd) # gs) =
     \<lparr>header = h, points = body_points clean bd, info = info_fn (gs = []) bd\<rparr> # group_sections info_fn clean gs"

text \<open>
  The sections of a content by its groups: a headerless section for the lines before the
  first header line when they hold a point, then one section per header line.
\<close>

definition sections_with ::
  "(bool \<Rightarrow> ustring list \<Rightarrow> ustring) \<Rightarrow> (ustring \<Rightarrow> ustring) \<Rightarrow> ustring list \<Rightarrow> section_dict list" where
  "sections_with info_fn clean ls =
     (case header_groups ls of
        (pre, gs) \<Rightarrow>
          (if body_points clean pre \<noteq> []
           then [\<lparr>header = [], points = body_points clean pre, info = info_fn (gs = []) pre\<rparr>]
           else []) @ group_sections info_fn clean gs)"

text \<open>
  No body that is followed by a header line ends in a paragraph with info lines: every
  info line of such a body has a blank line between it and the next header line.
\<close>

definition blocks_closed :: "ustring list \<Rightarrow> bool" where
  "blocks_closed ls =
     (case header_groups ls of
        (pre, gs) \<Rightarrow>
          list_all (\<lambda>bd. filter info_line (last (paragraphs bd)) = []) (butlast (pre # map snd gs)))"

text \<open>The body of the loop of \<open>parse_section\<close> on a line that is already stripped.\<close>

definition line_step :: "(ustring \<Rightarrow> ustring) \<Rightarrow> parse_state \<Rightarrow> ustring \<Rightarrow> parse_state" where
  "line_step clean st line =
     (if line = [] then
        (if info_block st \<noteq> [] then
           st\<lparr>current_section := (current_section st)\<lparr>info := py_join [SPACE] (info_block st)\<rparr>,
              info_block := []\<rparr>
         else st)
      else if is_header line then
        st\<lparr>sections := (if keep (current_section st) then sections st @ [current_section st]
                         else sections st),
           current_section := new_section line,
           info_block := []\<rparr>
      else if is_bullet line then
        (let point = clean (lstrip_chars [BULLET, HYPHEN, ASTERISK, SPACE] line) in
         if point \<noteq> [] then
           st\<lparr>current_section :=
                (current_section st)\<lparr>points := points (current_section st) @ [point]\<rparr>\<rparr>
         else st)
      else st\<lparr>info_block := info_block st @ [line]\<rparr>)"

text \<open>Each group starts with a header line and has none in its body.\<close>

definition groups_ok :: "(ustring \<times> ustring list) list \<Rightarrow> bool" where
  "groups_ok gs = (\<forall>g\<in>set gs. is_header (fst g) \<and> (\<forall>l\<in>set (snd g). \<not> is_header l))"

text \<open>The rows of a table flowable.\<close>

definition table_rows :: "flowable \<Rightarrow> cell list list" where
  "table_rows f = (case f of Table rows _ _ _ \<Rightarrow> rows | _ \<Rightarrow> [])"

text \<open>Inputs on which the functions are run below.\<close>

definition date0 :: pydate where
  "date0 = \<lparr>year = 2024, month = 1, day = 1\<rparr>"

definition plan_intro :: ustring where
  "plan_intro = ustr ''Intro'' @ [NL] @ ustr ''Day 1:'' @ [NL] @ ustr ''Museum''"

definition content_hab :: ustring where
  "content_hab = ustr ''H:'' @ [NL] @ ustr ''a'' @ [NL] @ [NL] @ ustr ''b''"

definition content_hotel :: ustring where
  "content_hotel = ustr ''Accommodation: boutique hotel'' @ [NL] @ ustr ''10:30 Check-in''"

definition content_bullets :: ustring where
  "content_bullets =
     ustr ''- Visit museum'' @ [NL] @ [BULLET] @ ustr '' Visit museum'' @ [NL] @ ustr ''* ''"

definition content_two :: ustring where
  "content_two =
     ustr ''H:'' @ [NL] @ ustr ''a'' @ [NL] @ [NL] @ ustr ''b'' @ [NL] @ [NL] @
     ustr ''G:'' @ [NL] @ ustr ''- x''"

definition content_cut :: ustring where
  "content_cut = ustr ''H:'' @ [NL] @ ustr ''a'' @ [NL] @ ustr ''G:''"

definition content_scenario :: ustring where
  "content_scenario =
     ustr ''Morning:'' @ [NL] @ ustr ''- Breakfast'' @ [NL] @ ustr ''- City tour'' @ [NL] @
     ustr ''Evening:'' @ [NL] @ ustr ''Free time.''"

definition plan_markup :: ustring where
  "plan_markup = ustr ''Day 1: <b>x'' @ [NL] @ ustr ''- y''"

definition plan_notes :: ustring where
  "plan_notes = ustr ''Notes: <b>''"

definition content_ab :: ustring where
  "content_ab = ustr ''A:'' @ [NL] @ ustr ''- x'' @ [NL] @ ustr ''B:''"

section \<open>Facts about the day pattern and the split\<close>


lemma ustr_Day: "ustr ''Day '' = [68, 97, 121, 32]" by (simp add: ustr_def)
lemma ustr_DAY: "ustr ''DAY '' = [68, 65, 89, 32]" by (simp add: ustr_def)
lemma ustr_TO: "ustr ''Trip Overview'' = [84, 114, 105, 112, 32, 79, 118, 101, 114, 118, 105, 101, 119]"
  by (simp add: ustr_def)

lemma not_space_D: "\<not> isspace 68" by (simp add: isspace_def in_ranges_def)
lemma not_decimal_D: "\<not> isdecimal 68" by (simp add: isdecimal_def in_ranges_def)
lemma not_decimal_colon: "\<not> isdecimal 58" by (simp add: isdecimal_def in_ranges_def)

lemma startswith_Day: "startswith s (ustr ''Day '') = (take 4 s = [68, 97, 121, 32])"
proof -
  have "length (ustr ''Day '') = 4" by (simp add: ustr_def)
  then show ?thesis unfolding startswith_def by (simp only: ustr_Day)
qed

lemma startswith_DAY: "startswith s (ustr ''DAY '') = (take 4 s = [68, 65, 89, 32])"
proof -
  have "length (ustr ''DAY '') = 4" by (simp add: ustr_def)
  then show ?thesis unfolding startswith_def by (simp only: ustr_DAY)
qed

lemma day_marker_alt:
  "day_marker s = ((take 4 s = [68, 97, 121, 32] \<or> take 4 s = [68, 65, 89, 32]) \<and> digits_colon (drop 4 s))"
  unfolding day_marker_def startswith_Day startswith_DAY by blast

lemma concat_re_split_from: "concat (re_split_from seg s) = seg @ s"
  by (induction s arbitrary: seg) auto

lemma re_split_from_ne: "re_split_from seg s \<noteq> []"
  by (induction s arbitrary: seg) auto

lemma digits_colon_iff:
  "digits_colon s \<longleftrightarrow> (\<exists>ds rest. ds \<noteq> [] \<and> (\<forall>d\<in>set ds. isdecimal d) \<and> s = ds @ 58 # rest)"
proof
  assume a: "digits_colon s"
  then obtain r where r: "dropWhile isdecimal s = 58 # r"
    by (auto simp: digits_colon_def split: list.splits)
  have "s = takeWhile isdecimal s @ 58 # r" using r takeWhile_dropWhile_id[of isdecimal s] by simp
  moreover have "\<forall>d\<in>set (takeWhile isdecimal s). isdecimal d" by (auto dest: set_takeWhileD)
  moreover have "takeWhile isdecimal s \<noteq> []" using a by (simp add: digits_colon_def)
  ultimately show "\<exists>ds rest. ds \<noteq> [] \<and> (\<forall>d\<in>set ds. isdecimal d) \<and> s = ds @ 58 # rest" by blast
next
  assume "\<exists>ds rest. ds \<noteq> [] \<and> (\<forall>d\<in>set ds. isdecimal d) \<and> s = ds @ 58 # rest"
  then obtain ds rest where h: "ds \<noteq> []" "\<forall>d\<in>set ds. isdecimal d" "s = ds @ 58 # rest" by blast
  have "takeWhile isdecimal s = ds" using h by (simp add: takeWhile_append2 not_decimal_colon)
  moreover have "dropWhile isdecimal s = 58 # rest" using h by (simp add: dropWhile_append2 not_decimal_colon)
  ultimately show "digits_colon s" using h by (simp add: digits_colon_def)
qed

lemma day_marker_iff: "day_marker s \<longleftrightarrow> (\<exists>m rest. marker_text m \<and> s = m @ rest)"
proof
  assume "day_marker s"
  then obtain w where w: "w = [68, 97, 121, 32] \<or> w = [68, 65, 89, 32]" "take 4 s = w" "digits_colon (drop 4 s)"
    unfolding day_marker_alt by blast
  then obtain ds rest where d: "ds \<noteq> []" "\<forall>d\<in>set ds. isdecimal d" "drop 4 s = ds @ 58 # rest"
    by (auto simp: digits_colon_iff)
  have "s = w @ ds @ [58] @ rest" using w(2) d(3) append_take_drop_id[of 4 s] by simp
  then show "\<exists>m rest. marker_text m \<and> s = m @ rest" using w(1) d(1,2) unfolding marker_text_def
    by (metis append.assoc)
next
  assume "\<exists>m rest. marker_text m \<and> s = m @ rest"
  then obtain w ds rest where h: "w = [68, 97, 121, 32] \<or> w = [68, 65, 89, 32]" "ds \<noteq> []" "\<forall>d\<in>set ds. isdecimal d" "s = (w @ ds @ [58]) @ rest"
    unfolding marker_text_def by blast
  have "drop 4 s = ds @ 58 # rest" using h by auto
  then have "digits_colon (drop 4 s)" using h(2,3) digits_colon_iff by blast
  moreover have "take 4 s = w" using h by auto
  ultimately show "day_marker s" using h(1) unfolding day_marker_alt by blast
qed

lemma marker_text_tl: "marker_text m \<Longrightarrow> \<exists>t. m = 68 # t \<and> 68 \<notin> set t"
  unfolding marker_text_def using not_decimal_D by auto

lemma day_marker_hd: "day_marker s \<Longrightarrow> \<exists>t. s = 68 # t"
  using day_marker_iff marker_text_tl by (metis append_Cons)

lemma take_hd_re_split_from: "take (length seg) (hd (re_split_from seg s)) = seg"
  by (induction s arbitrary: seg) (auto, metis append_eq_conv_conj append_take_drop_id take_append  append.assoc)


lemma hd_re_split_from_marker:
  "marker_text m \<Longrightarrow> seg \<noteq> [] \<Longrightarrow> seg @ s = m @ rest
   \<Longrightarrow> take (length m) (hd (re_split_from seg s)) = m"
proof (induction s arbitrary: seg rest)
  case Nil
  then show ?case by simp
next
  case (Cons c cs)
  show ?case
  proof (cases "length m \<le> length seg")
    case True
    have "take (length seg) (hd (re_split_from seg (c # cs))) = seg"
      by (rule take_hd_re_split_from)
    then have "take (length m) (hd (re_split_from seg (c # cs))) = take (length m) seg"
      using True by (metis min.absorb1 take_take)
    moreover have "take (length m) seg = m" using Cons.prems(3) True
      by (metis append_eq_append_conv_if append_eq_conv_conj)
    ultimately show ?thesis by simp
  next
    case False
    then have lt: "length seg < length m" by simp
    obtain t where t: "m = 68 # t" "68 \<notin> set t" using marker_text_tl[OF Cons.prems(1)] by blast
    have "(seg @ c # cs) ! length seg = (m @ rest) ! length seg" using Cons.prems(3) by simp
    then have "c = m ! length seg" using lt by (simp add: nth_append)
    moreover have "0 < length seg" using Cons.prems(2) by simp
    ultimately have "c \<in> set t" using t lt by (cases "length seg") auto
    then have "c \<noteq> 68" using t by auto
    then have nm: "\<not> day_marker (c # cs)" using day_marker_hd by blast
    have "(seg @ [c]) @ cs = m @ rest" using Cons.prems(3) by simp
    from Cons.IH[OF Cons.prems(1) _ this] nm show ?thesis by simp
  qed
qed

lemma re_split_from_tl_marker: "c \<in> set (tl (re_split_from seg s)) \<Longrightarrow> day_marker c"
proof (induction s arbitrary: seg c)
  case Nil
  then show ?case by simp
next
  case (Cons x xs)
  show ?case
  proof (cases "day_marker (x # xs)")
    case True
    then obtain m rest where m: "marker_text m" "x # xs = m @ rest" using day_marker_iff by blast
    have mem: "c \<in> set (re_split_from [x] xs)" using Cons.prems True by simp
    obtain h r where hr: "re_split_from [x] xs = h # r" using re_split_from_ne by (cases "re_split_from [x] xs") auto
    show ?thesis
    proof (cases "c = h")
      case True
      have "take (length m) (hd (re_split_from [x] xs)) = m"
        using hd_re_split_from_marker[OF m(1), of "[x]" xs rest] m(2) by simp
      then have "h = m @ drop (length m) h" using hr by (metis append_take_drop_id list.sel(1))
      then show ?thesis using True m(1) day_marker_iff by blast
    next
      case False
      then have "c \<in> set (tl (re_split_from [x] xs))" using mem hr by simp
      then show ?thesis by (rule Cons.IH)
    qed
  next
    case False
    then show ?thesis using Cons.prems Cons.IH by simp
  qed
qed

lemma re_split_tl_marker: "c \<in> set (tl (re_split s)) \<Longrightarrow> day_marker c"
  unfolding re_split_def by (rule re_split_from_tl_marker)

lemma day_marker_not_blank: "day_marker c \<Longrightarrow> strip c \<noteq> []"
proof -
  assume "day_marker c"
  then obtain t where t: "c = 68 # t" using day_marker_hd by blast
  have "dropWhile isspace c = c" using t not_space_D by simp
  moreover have "dropWhile isspace (rev c) \<noteq> []" using t not_space_D by (auto simp: dropWhile_append)
  ultimately show ?thesis by (simp add: strip_def)
qed

lemma length_re_split_from: "length (re_split_from seg s) = Suc (count_markers s)"
  by (induction s arbitrary: seg) auto

lemma count_markers_0_re_split_from: "count_markers s = 0 \<Longrightarrow> re_split_from seg s = [seg @ s]"
  by (induction s arbitrary: seg) (auto split: if_splits)

lemma dbh_append: "day_block_headers (xs @ ys) = day_block_headers xs @ day_block_headers ys"
  by (induction xs rule: day_block_headers.induct) auto

lemma foldl_points_story:
  "foldl (\<lambda>st point. st @ [Paragraph (f point) BulletPoint]) story ps = story @ map (\<lambda>p. Paragraph (f p) BulletPoint) ps"
  by (induction ps arbitrary: story) auto

lemma dbh_bullets: "day_block_headers (map (\<lambda>p. Paragraph (f p) BulletPoint) ps) = []"
  by (induction ps) auto

lemma section_built_app: "\<exists>bs. section_built story s = story @ bs \<and> day_block_headers bs = []"
  unfolding section_built_def Let_def foldl_points_story
  by (auto simp: dbh_append dbh_bullets)

lemma foldl_section_built_app: "\<exists>bs. foldl section_built story ss = story @ bs \<and> day_block_headers bs = []"
proof (induction ss arbitrary: story)
  case Nil
  then show ?case by simp
next
  case (Cons s ss)
  obtain b1 where b1: "section_built story s = story @ b1" "day_block_headers b1 = []"
    using section_built_app by blast
  obtain b2 where b2: "foldl section_built (story @ b1) ss = (story @ b1) @ b2" "day_block_headers b2 = []"
    using Cons.IH by blast
  show ?case using b1 b2 by (auto simp: dbh_append)
qed

lemma day_built_app:
  "\<exists>bs. day_built clean story d = story @ bs \<and>
        day_block_headers bs = (if strip d \<noteq> [] then [day_header d] else [])"
proof (cases "strip d \<noteq> []")
  case True
  obtain b where b: "foldl section_built (story @ [Paragraph (day_header d) DayHeader]) (parse_section clean (day_content d))
      = (story @ [Paragraph (day_header d) DayHeader]) @ b" "day_block_headers b = []"
    using foldl_section_built_app by blast
  show ?thesis using True b by (simp add: day_built_def add_separator_def dbh_append)
next
  case False
  then show ?thesis by (simp add: day_built_def)
qed

lemma foldl_day_built_app:
  "\<exists>bs. foldl (day_built clean) story ds = story @ bs \<and>
        day_block_headers bs = map day_header (filter (\<lambda>d. strip d \<noteq> []) ds)"
proof (induction ds arbitrary: story)
  case Nil
  then show ?case by simp
next
  case (Cons d ds)
  obtain b1 where b1: "day_built clean story d = story @ b1"
     "day_block_headers b1 = (if strip d \<noteq> [] then [day_header d] else [])"
    using day_built_app by blast
  obtain b2 where b2: "foldl (day_built clean) (story @ b1) ds = (story @ b1) @ b2"
     "day_block_headers b2 = map day_header (filter (\<lambda>d. strip d \<noteq> []) ds)"
    using Cons.IH by blast
  show ?case using b1 b2 by (auto simp: dbh_append)
qed

lemma headers_generate:
  "day_block_headers (story_built clean plan a b s e) =
     map day_header (filter (\<lambda>d. strip d \<noteq> []) (re_split plan))"
proof -
  let ?front = "add_separator ([] @ [Paragraph (ustr ''Travel Itinerary'' @ [NL] @ a @ ustr '' to '' @ b) CustomTitle] @
     [Paragraph (ustr ''Journey Dates: '' @ str_date s @ ustr '' - '' @ str_date e) CustomSubtitle] @
     [create_overview_table \<lparr>start_location = a, destination = b, start_date = s, end_date = e, duration = days_between e s + 1\<rparr>] @
     [Spacer 1 20]) 450"
  obtain bs where bs: "foldl (day_built clean) ?front (re_split plan) = ?front @ bs"
     "day_block_headers bs = map day_header (filter (\<lambda>d. strip d \<noteq> []) (re_split plan))"
    using foldl_day_built_app by blast
  have "day_block_headers ?front = []" by (simp add: add_separator_def create_overview_table_def)
  then show ?thesis using bs by (simp add: story_built_def Let_def dbh_append)
qed

section \<open>The story that is built\<close>

lemmas char_eval = ustr_def isspace_def isdecimal_def isdigit_def in_ranges_def
lemmas marker_eval = day_marker_def startswith_def digits_colon_def
lemmas parse_eval = parse_section_def parse_line_def parse_finish_def parse_init_def new_section_def
  keep_def is_header_def is_bullet_def lstrip_chars_def strip_def clean_text_def startswith_def

lemma str_date0: "str_date date0 = ustr ''2024-01-01''"
  by (simp add: str_date_def date0_def zero_pad_def str_int_def str_nat.simps ustr_def)

lemma section_built_prefix: "section_built (xs @ ys) s = xs @ section_built ys s"
  by (simp add: section_built_def Let_def foldl_points_story)

lemma foldl_section_built_prefix:
  "foldl section_built (xs @ ys) ss = xs @ foldl section_built ys ss"
  by (induction ss arbitrary: ys) (simp_all add: section_built_prefix)

lemma day_built_prefix: "day_built clean (xs @ ys) d = xs @ day_built clean ys d"
proof -
  have "foldl section_built (xs @ (ys @ [Paragraph (day_header d) DayHeader])) (parse_section clean (day_content d))
      = xs @ foldl section_built (ys @ [Paragraph (day_header d) DayHeader]) (parse_section clean (day_content d))"
    by (rule foldl_section_built_prefix)
  then show ?thesis by (simp add: day_built_def Let_def add_separator_def)
qed

lemma foldl_day_built_prefix:
  "foldl (day_built clean) (xs @ ys) ds = xs @ foldl (day_built clean) ys ds"
  by (induction ds arbitrary: ys) (simp_all add: day_built_prefix)

lemma for_each_points:
  "for_each (\<lambda>st p. append_paragraph markup_ok st (f p) BulletPoint) story ps =
     (if list_all (\<lambda>p. markup_ok (f p)) ps
      then Inr (foldl (\<lambda>st p. st @ [Paragraph (f p) BulletPoint]) story ps)
      else Inl ValueError)"
  by (induction ps arbitrary: story) (simp_all add: append_paragraph_def)

lemma section_story_built:
  "section_story markup_ok story s =
     (if section_ok markup_ok s then Inr (section_built story s) else Inl ValueError)"
  unfolding section_story_def for_each_points
  by (simp add: section_built_def section_ok_def append_paragraph_def Let_def)

lemma for_each_section_story:
  "for_each (section_story markup_ok) story ss =
     (if list_all (section_ok markup_ok) ss then Inr (foldl section_built story ss)
      else Inl ValueError)"
  by (induction ss arbitrary: story) (simp_all add: section_story_built)

lemma day_story_built:
  "day_story markup_ok clean story d =
     (if day_ok markup_ok clean d then Inr (day_built clean story d) else Inl ValueError)"
  unfolding day_story_def for_each_section_story
  by (simp add: day_built_def day_ok_def append_paragraph_def Let_def)

lemma for_each_day_story:
  "for_each (day_story markup_ok clean) story ds =
     (if list_all (day_ok markup_ok clean) ds then Inr (foldl (day_built clean) story ds)
      else Inl ValueError)"
  by (induction ds arbitrary: story) (simp_all add: day_story_built)

lemma generate_trip_pdf_built:
  "generate_trip_pdf markup_ok clean plan a b s e =
     (if story_ok markup_ok clean plan a b s e then Inr (story_built clean plan a b s e)
      else Inl ValueError)"
  unfolding generate_trip_pdf_def for_each_day_story
  by (simp add: story_built_def story_ok_def append_paragraph_def Let_def)

lemma generate_trip_pdf_Inr:
  "generate_trip_pdf markup_ok clean plan a b s e = Inr story \<Longrightarrow>
   story = story_built clean plan a b s e \<and> list_all (day_ok markup_ok clean) (re_split plan)"
  by (simp add: generate_trip_pdf_built story_ok_def split: if_splits)

lemma re_split_plan_intro:
  "re_split plan_intro = [ustr ''Intro'' @ [NL], ustr ''Day 1:'' @ [NL] @ ustr ''Museum'']"
  by (simp add: plan_intro_def re_split_def char_eval marker_eval)

lemma markup_plain_Nil: "markup_plain []"
  by (simp add: markup_plain_def)

lemma markup_plain_append: "markup_plain (x @ y) = (markup_plain x \<and> markup_plain y)"
  by (simp add: markup_plain_def)

lemma markup_plain_front:
  "markup_plain a \<Longrightarrow> markup_plain b \<Longrightarrow>
   markup_plain (ustr ''Travel Itinerary'' @ [NL] @ a @ ustr '' to '' @ b) \<and>
   markup_plain (ustr ''Journey Dates: '' @ str_date date0 @ ustr '' - '' @ str_date date0)"
  by (simp add: markup_plain_append str_date0) (simp add: markup_plain_def ustr_def)

lemma story_ok_plan_intro:
  "markup_plain a \<Longrightarrow> markup_plain b \<Longrightarrow> story_ok markup_plain clean_text plan_intro a b date0 date0"
  unfolding story_ok_def re_split_plan_intro using markup_plain_front[of a b]
  by (simp add: day_ok_def day_header_def day_content_def section_ok_def markup_plain_def
        parse_eval marker_eval char_eval)

lemma story_ok_pack_light:
  "story_ok markup_plain clean_text (ustr ''Pack light'') [] [] date0 date0"
  unfolding story_ok_def using markup_plain_front[OF markup_plain_Nil markup_plain_Nil]
  by (simp add: re_split_def day_ok_def day_header_def day_content_def section_ok_def
        markup_plain_def parse_eval marker_eval char_eval)

lemma story_ok_empty: "story_ok markup_plain clean_text [] [] [] date0 date0"
  unfolding story_ok_def using markup_plain_front[OF markup_plain_Nil markup_plain_Nil]
  by (simp add: re_split_def day_ok_def strip_def)

lemma not_ok_plan_markup: "\<not> story_ok markup_plain clean_text plan_markup [] [] date0 date0"
  by (simp add: story_ok_def plan_markup_def re_split_def day_ok_def day_header_def
        markup_plain_def strip_def marker_eval char_eval)

lemma not_ok_plan_notes: "\<not> story_ok markup_plain clean_text plan_notes [] [] date0 date0"
  by (simp add: story_ok_def plan_notes_def re_split_def day_ok_def day_header_def day_content_def
        section_ok_def markup_plain_def parse_eval marker_eval char_eval)

lemma not_ok_title:
  "\<not> story_ok markup_plain clean_text plan_intro (ustr ''<b>'') (ustr ''B'') date0 date0"
  by (simp add: story_ok_def markup_plain_def ustr_def)

section \<open>The day blocks of a story\<close>

lemma hd_split_on_marker: "day_marker c \<Longrightarrow> hd (split_on NL c) \<noteq> ustr ''Trip Overview''"
proof -
  assume "day_marker c"
  then obtain t where t: "c = 68 # t" using day_marker_hd by blast
  have "hd (hd (split_on NL c)) = 68" "hd (split_on NL c) \<noteq> []" using t by (auto split: list.splits)
  then show ?thesis by (auto simp: ustr_TO)
qed

lemma re_split_cases:
  "\<exists>h r. re_split plan = h # r \<and> (\<forall>c\<in>set r. day_marker c) \<and> \<not> day_marker h \<and> plan = h @ concat r"
proof -
  obtain h r where hr: "re_split plan = h # r"
    using re_split_from_ne[of "[]" plan] by (cases "re_split plan") (auto simp: re_split_def)
  have r: "\<forall>c\<in>set r. day_marker c" using re_split_tl_marker[of _ plan] hr by simp
  have cc: "plan = h @ concat r" using concat_re_split_from[of "[]" plan] hr by (simp add: re_split_def)
  have "\<not> day_marker h"
  proof
    assume dm: "day_marker h"
    then have "day_marker plan" using cc day_marker_iff by (metis append.assoc)
    then have "h = []" using hr by (cases plan) (auto simp: re_split_def)
    then show False using dm day_marker_hd by blast
  qed
  then show ?thesis using hr r cc by blast
qed

lemma headers_split:
  "day_block_headers (story_built clean plan a b s e) =
     (if strip (hd (re_split plan)) = [] then [] else [ustr ''Trip Overview'']) @
     map (\<lambda>c. hd (split_on NL c)) (tl (re_split plan))"
proof -
  obtain h r where hr: "re_split plan = h # r" "\<forall>c\<in>set r. day_marker c" "\<not> day_marker h"
    using re_split_cases by blast
  have "filter (\<lambda>d. strip d \<noteq> []) r = r" using hr(2) day_marker_not_blank by (simp add: filter_id_conv)
  moreover have "map day_header r = map (\<lambda>c. hd (split_on NL c)) r" using hr(2) by (simp add: day_header_def)
  ultimately show ?thesis using hr by (simp add: headers_generate day_header_def)
qed

lemma cut_at_shift:
  "cut_at (k + length pre) (map (\<lambda>p. p + length pre) ps) (pre @ s) = cut_at k ps s"
  by (induction ps arbitrary: k) auto

lemma marker_positions_Cons:
  "marker_positions (c # cs) = (if day_marker (c # cs) then [0] else []) @ map Suc (marker_positions cs)"
proof -
  have "[0..<length (c # cs)] = 0 # map Suc [0..<length cs]"
    using upt_conv_Cons[of 0 "length (c # cs)"] map_Suc_upt[of 0 "length cs"] by simp
  then show ?thesis by (simp add: marker_positions_def filter_map comp_def)
qed

lemma re_split_from_cut:
  "re_split_from seg s = cut_at 0 (map (\<lambda>p. p + length seg) (marker_positions s)) (seg @ s)"
proof (induction s arbitrary: seg)
  case Nil
  then show ?case by (simp add: marker_positions_def)
next
  case (Cons c cs)
  show ?case
  proof (cases "day_marker (c # cs)")
    case True
    have "cut_at (0 + length seg) (map (\<lambda>p. p + length seg) (map Suc (marker_positions cs))) (seg @ c # cs)
          = cut_at 0 (map Suc (marker_positions cs)) (c # cs)"
      by (rule cut_at_shift)
    moreover have "re_split_from [c] cs = cut_at 0 (map Suc (marker_positions cs)) (c # cs)"
      using Cons.IH[of "[c]"] by simp
    ultimately show ?thesis using True by (simp add: marker_positions_Cons comp_def)
  next
    case False
    then show ?thesis using Cons.IH[of "seg @ [c]"] by (simp add: marker_positions_Cons comp_def)
  qed
qed

lemma headers_plan_intro:
  "day_block_headers (story_built clean plan_intro a b s e) = [ustr ''Trip Overview'', ustr ''Day 1:'']"
  unfolding headers_generate re_split_plan_intro
  by (simp add: day_header_def strip_def char_eval marker_eval)

text \<open>
  Claim C1, as amended. The code splits at every occurrence of the day pattern, wherever it
  lies in its line, and keeps the text before the first occurrence as a block of its own
  when that text is not blank. For a plan text with \<open>N\<close> occurrences of the pattern the
  split yields \<open>N\<close> chunks after the leading one, each starting with the pattern at its
  own position, and the chunks put together give the text back. Whenever the story is
  built (no paragraph text is refused by the markup parser), its day blocks are one block
  per such chunk, its header the first line of the chunk, preceded by one block with the
  header "Trip Overview" exactly when the leading chunk is not blank.
\<close>

theorem day_blocks_per_marker_occurrence:
  "generate_trip_pdf markup_ok clean plan a b s e = Inr story \<Longrightarrow>
   day_block_headers story =
     (if strip (hd (re_split plan)) = [] then [] else [ustr ''Trip Overview'']) @
     map (\<lambda>c. hd (split_on NL c)) (tl (re_split plan)) \<and>
   length (tl (re_split plan)) = count_markers plan \<and>
   (\<forall>c\<in>set (tl (re_split plan)). day_marker c) \<and>
   concat (re_split plan) = plan"
proof -
  assume g: "generate_trip_pdf markup_ok clean plan a b s e = Inr story"
  have st: "story = story_built clean plan a b s e" using generate_trip_pdf_Inr[OF g] by simp
  show ?thesis
    unfolding st using headers_split re_split_tl_marker
    by (simp add: re_split_def length_re_split_from concat_re_split_from)
qed

text \<open>
  On the text of three lines "Intro", "Day 1:", "Museum" the story is built, there is one
  occurrence of the pattern and there are two blocks.
\<close>

theorem day_blocks_per_marker_occurrence_witness:
  "map_sum id day_block_headers (generate_trip_pdf markup_plain clean_text plan_intro [] [] date0 date0) =
     Inr [ustr ''Trip Overview'', ustr ''Day 1:''] \<and>
   length (tl (re_split plan_intro)) = 1 \<and> count_markers plan_intro = 1"
proof -
  have g: "generate_trip_pdf markup_plain clean_text plan_intro [] [] date0 date0 =
      Inr (story_built clean_text plan_intro [] [] date0 date0)"
    by (simp add: generate_trip_pdf_built story_ok_plan_intro markup_plain_Nil)
  show ?thesis
    using day_blocks_per_marker_occurrence[OF g]
    by (simp add: g re_split_plan_intro strip_def char_eval)
qed

text \<open>
  The claim as written fails there: exactly one line of that text is a day-marker line,
  yet two day blocks are emitted. It fails too on the lines "Day 1: <b>x" and "- y", with
  one day-marker line: the header of the day is refused as markup, the error leaves
  \<open>generate_trip_pdf\<close>, and no day block is emitted.
\<close>

theorem day_blocks_preamble_counterexample:
  "length (day_marker_lines plan_intro) = 1 \<and>
   map_sum id (\<lambda>story. length (day_block_headers story))
     (generate_trip_pdf markup_plain clean_text plan_intro [] [] date0 date0) = Inr 2 \<and>
   length (day_marker_lines plan_markup) = 1 \<and>
   generate_trip_pdf markup_plain clean_text plan_markup [] [] date0 date0 = Inl ValueError"
proof -
  have "length (day_marker_lines plan_intro) = 1"
    by (simp add: day_marker_lines_def plan_intro_def char_eval marker_eval)
  moreover have "length (day_marker_lines plan_markup) = 1"
    by (simp add: day_marker_lines_def plan_markup_def char_eval marker_eval)
  ultimately show ?thesis
    by (simp add: generate_trip_pdf_built story_ok_plan_intro not_ok_plan_markup
          markup_plain_Nil headers_plan_intro)
qed

text \<open>
  Claim C3, as amended. The chunks of the split are the slices of the text at exactly the
  positions where "Day <digits>:" or "DAY <digits>:" occurs, in these two spellings only
  and at any position of a line, and every chunk after the first starts with the marker
  that introduced it.
\<close>

theorem re_split_at_marker_occurrences:
  "re_split plan = cut_at 0 (marker_positions plan) plan \<and>
   (\<forall>c\<in>set (tl (re_split plan)). day_marker c)"
proof -
  have "re_split plan = cut_at 0 (marker_positions plan) plan"
    using re_split_from_cut[of "[]" plan] by (simp add: re_split_def)
  moreover have "\<forall>c\<in>set (tl (re_split plan)). day_marker c" using re_split_tl_marker by blast
  ultimately show ?thesis by blast
qed

theorem re_split_at_marker_occurrences_witness:
  "re_split plan_intro = [ustr ''Intro'' @ [NL], ustr ''Day 1:'' @ [NL] @ ustr ''Museum''] \<and>
   marker_positions plan_intro = [6] \<and> day_marker (ustr ''Day 1:'' @ [NL] @ ustr ''Museum'')"
proof -
  have "marker_positions plan_intro = [6]"
    by (simp add: marker_positions_def plan_intro_def upt_rec[of _ "numeral n" for n] char_eval marker_eval)
  moreover have "re_split plan_intro = cut_at 0 (marker_positions plan_intro) plan_intro \<and>
      (\<forall>c\<in>set (tl (re_split plan_intro)). day_marker c)"
    by (rule re_split_at_marker_occurrences)
  then have "day_marker (ustr ''Day 1:'' @ [NL] @ ustr ''Museum'')"
    unfolding re_split_plan_intro by simp
  ultimately show ?thesis by (simp add: re_split_plan_intro)
qed

text \<open>
  The claim as written fails twice: a line beginning with "day 1:" in lower case is no
  boundary, and "Day 2:" in the middle of a line is one.
\<close>

theorem re_split_case_and_midline_counterexample:
  "re_split (ustr ''x'' @ [NL] @ ustr ''day 1: y'') = [ustr ''x'' @ [NL] @ ustr ''day 1: y''] \<and>
   re_split (ustr ''see Day 2: x'') = [ustr ''see '', ustr ''Day 2: x'']"
  by (simp add: re_split_def char_eval marker_eval)

text \<open>
  Claim C4, as amended. For a plan text without any occurrence of the day pattern, whenever
  the story is built (no paragraph text is refused by the markup parser), it holds exactly
  one day block, with the header "Trip Overview", when the text is not blank, and no day
  block when the text is blank (the empty text included).
\<close>

theorem no_marker_single_overview:
  "count_markers plan = 0 \<Longrightarrow>
   generate_trip_pdf markup_ok clean plan a b s e = Inr story \<Longrightarrow>
   day_block_headers story = (if strip plan = [] then [] else [ustr ''Trip Overview''])"
proof -
  assume "count_markers plan = 0" and g: "generate_trip_pdf markup_ok clean plan a b s e = Inr story"
  then have "re_split plan = [plan]"
    using count_markers_0_re_split_from[of plan "[]"] by (simp add: re_split_def)
  then show ?thesis using generate_trip_pdf_Inr[OF g] by (simp add: headers_split)
qed

theorem no_marker_single_overview_witness:
  "count_markers (ustr ''Pack light'') = 0 \<and>
   map_sum id day_block_headers
     (generate_trip_pdf markup_plain clean_text (ustr ''Pack light'') [] [] date0 date0) =
     Inr [ustr ''Trip Overview'']"
proof -
  have c: "count_markers (ustr ''Pack light'') = 0" by (simp add: char_eval marker_eval)
  have s: "strip (ustr ''Pack light'') \<noteq> []" by (simp add: strip_def char_eval)
  have g: "generate_trip_pdf markup_plain clean_text (ustr ''Pack light'') [] [] date0 date0 =
      Inr (story_built clean_text (ustr ''Pack light'') [] [] date0 date0)"
    by (simp add: generate_trip_pdf_built story_ok_pack_light)
  show ?thesis using no_marker_single_overview[OF c g] c s by (simp add: g)
qed

text \<open>
  The claim as written fails on the empty text: no day-marker line, and a story without a
  day block. It fails too on the text "Notes: <b>", which has no day marker and is not
  blank: its section header is refused as markup and no story is built.
\<close>

theorem empty_plan_no_block_counterexample:
  "length (day_marker_lines []) = 0 \<and> count_markers [] = 0 \<and>
   map_sum id day_block_headers (generate_trip_pdf markup_plain clean_text [] [] [] date0 date0) = Inr [] \<and>
   length (day_marker_lines plan_notes) = 0 \<and> count_markers plan_notes = 0 \<and>
   generate_trip_pdf markup_plain clean_text plan_notes [] [] date0 date0 = Inl ValueError"
proof -
  have "day_block_headers (story_built clean_text [] [] [] date0 date0) = []"
    by (simp add: headers_generate re_split_def strip_def)
  moreover have "length (day_marker_lines plan_notes) = 0 \<and> count_markers plan_notes = 0"
    by (simp add: day_marker_lines_def plan_notes_def char_eval marker_eval)
  moreover have "length (day_marker_lines []) = 0"
    by (simp add: day_marker_lines_def marker_eval ustr_def)
  ultimately show ?thesis
    by (simp add: generate_trip_pdf_built story_ok_empty not_ok_plan_notes)
qed

lemma overview_only_first_built:
  "ustr ''Trip Overview'' \<notin> set (tl (day_block_headers (story_built clean plan a b s e))) \<and>
   count_list (day_block_headers (story_built clean plan a b s e)) (ustr ''Trip Overview'') \<le> 1"
proof -
  let ?hs = "day_block_headers (story_built clean plan a b s e)"
  let ?ms = "map (\<lambda>c. hd (split_on NL c)) (tl (re_split plan))"
  have "\<forall>c\<in>set (tl (re_split plan)). hd (split_on NL c) \<noteq> ustr ''Trip Overview''"
    using re_split_tl_marker hd_split_on_marker by blast
  then have ms: "ustr ''Trip Overview'' \<notin> set ?ms" by auto
  have "set (tl ?hs) \<subseteq> set ?ms"
  proof (cases "strip (hd (re_split plan)) = []")
    case True
    then have "?hs = ?ms" by (simp add: headers_split)
    then show ?thesis by (metis list.sel(2) list.set_sel(2) subsetI)
  next
    case False
    then have "tl ?hs = ?ms" by (simp add: headers_split)
    then show ?thesis by simp
  qed
  then have a: "ustr ''Trip Overview'' \<notin> set (tl ?hs)" using ms by blast
  then have "count_list (tl ?hs) (ustr ''Trip Overview'') = 0" by (simp add: count_list_0_iff)
  then have "count_list ?hs (ustr ''Trip Overview'') \<le> 1" by (cases ?hs) auto
  then show ?thesis using a by blast
qed

text \<open>
  Claim C10. Among the day blocks of a story that is built only the first can carry the
  header "Trip Overview", so at most one does: every chunk of the split after the first
  starts with a day marker and takes its own first line as header.
\<close>

theorem trip_overview_only_first:
  "generate_trip_pdf markup_ok clean plan a b s e = Inr story \<Longrightarrow>
   ustr ''Trip Overview'' \<notin> set (tl (day_block_headers story)) \<and>
   count_list (day_block_headers story) (ustr ''Trip Overview'') \<le> 1"
  using generate_trip_pdf_Inr overview_only_first_built by blast

theorem trip_overview_only_first_witness:
  "map_sum id day_block_headers (generate_trip_pdf markup_plain clean_text plan_intro [] [] date0 date0) =
     Inr [ustr ''Trip Overview'', ustr ''Day 1:''] \<and>
   ustr ''Trip Overview'' \<notin> set (tl [ustr ''Trip Overview'', ustr ''Day 1:''])"
proof -
  have g: "generate_trip_pdf markup_plain clean_text plan_intro [] [] date0 date0 =
      Inr (story_built clean_text plan_intro [] [] date0 date0)"
    by (simp add: generate_trip_pdf_built story_ok_plan_intro markup_plain_Nil)
  show ?thesis using trip_overview_only_first[OF g] by (simp add: g headers_plan_intro)
qed

section \<open>The front matter of a story\<close>

lemma story_split:
  "story_built clean plan a b s e =
     [Paragraph (ustr ''Travel Itinerary'' @ [NL] @ a @ ustr '' to '' @ b) CustomTitle,
      Paragraph (ustr ''Journey Dates: '' @ str_date s @ ustr '' - '' @ str_date e) CustomSubtitle,
      create_overview_table \<lparr>start_location = a, destination = b, start_date = s, end_date = e,
        duration = days_between e s + 1\<rparr>,
      Spacer 1 20,
      Table [[Str []]] [450] (Some [2]) SeparatorStyle,
      Spacer 1 10] @
     foldl (day_built clean) [] (re_split plan)"
proof -
  let ?front = "[Paragraph (ustr ''Travel Itinerary'' @ [NL] @ a @ ustr '' to '' @ b) CustomTitle,
      Paragraph (ustr ''Journey Dates: '' @ str_date s @ ustr '' - '' @ str_date e) CustomSubtitle,
      create_overview_table \<lparr>start_location = a, destination = b, start_date = s, end_date = e,
        duration = days_between e s + 1\<rparr>,
      Spacer 1 20,
      Table [[Str []]] [450] (Some [2]) SeparatorStyle,
      Spacer 1 10]"
  have "story_built clean plan a b s e = foldl (day_built clean) (?front @ []) (re_split plan)"
    by (simp add: story_built_def Let_def add_separator_def)
  then show ?thesis by (simp only: foldl_day_built_prefix)
qed

text \<open>
  Claim C7, as amended. Whatever the plan text, the locations and the dates, whenever the
  story is built (no paragraph text is refused by the markup parser) it starts with the
  title paragraph, the subtitle paragraph, the summary table with the spacer that follows
  it, and the separator (a rule and its spacer), in this order; what follows these six
  flowables is what the loop over the day chunks builds from the empty story.
\<close>

theorem story_front_matter:
  "generate_trip_pdf markup_ok clean plan a b s e = Inr story \<Longrightarrow>
   take 6 story =
     [Paragraph (ustr ''Travel Itinerary'' @ [NL] @ a @ ustr '' to '' @ b) CustomTitle,
      Paragraph (ustr ''Journey Dates: '' @ str_date s @ ustr '' - '' @ str_date e) CustomSubtitle,
      create_overview_table \<lparr>start_location = a, destination = b, start_date = s, end_date = e,
        duration = days_between e s + 1\<rparr>,
      Spacer 1 20,
      Table [[Str []]] [450] (Some [2]) SeparatorStyle,
      Spacer 1 10] \<and>
   for_each (day_story markup_ok clean) [] (re_split plan) = Inr (drop 6 story)"
proof -
  assume g: "generate_trip_pdf markup_ok clean plan a b s e = Inr story"
  have st: "story = story_built clean plan a b s e"
    and ok: "list_all (day_ok markup_ok clean) (re_split plan)"
    using generate_trip_pdf_Inr[OF g] by simp_all
  have "for_each (day_story markup_ok clean) [] (re_split plan) =
      Inr (foldl (day_built clean) [] (re_split plan))"
    using ok by (simp add: for_each_day_story)
  then show ?thesis unfolding st story_split by simp
qed

theorem story_front_matter_witness:
  "map_sum id (take 6)
     (generate_trip_pdf markup_plain clean_text plan_intro (ustr ''A'') (ustr ''B'') date0 date0) =
   Inr
     [Paragraph (ustr ''Travel Itinerary'' @ [NL] @ ustr ''A to B'') CustomTitle,
      Paragraph (ustr ''Journey Dates: 2024-01-01 - 2024-01-01'') CustomSubtitle,
      Table
        [[Str (ustr ''Trip Summary''), Str []],
         [Str (ustr ''Departure''), Str (ustr ''A'')],
         [Str (ustr ''Destination''), Str (ustr ''B'')],
         [Str (ustr ''Start Date''), Date date0],
         [Str (ustr ''End Date''), Date date0],
         [Str (ustr ''Duration''), Str (ustr ''1 days'')]]
        [120, 300] None OverviewStyle,
      Spacer 1 20,
      Table [[Str []]] [450] (Some [2]) SeparatorStyle,
      Spacer 1 10]"
proof -
  have ab: "markup_plain (ustr ''A'')" "markup_plain (ustr ''B'')"
    by (simp_all add: markup_plain_def ustr_def)
  have g: "generate_trip_pdf markup_plain clean_text plan_intro (ustr ''A'') (ustr ''B'') date0 date0 =
      Inr (story_built clean_text plan_intro (ustr ''A'') (ustr ''B'') date0 date0)"
    by (simp add: generate_trip_pdf_built story_ok_plan_intro ab)
  have "str_int (days_between date0 date0 + 1) = ustr ''1''"
    by (simp add: days_between_def str_int_def str_nat.simps ustr_def)
  then show ?thesis
    using story_front_matter[OF g]
    by (simp add: g str_date0 create_overview_table_def) (simp add: ustr_def)
qed

text \<open>
  The claim as written fails for the start location "<b>": the title is refused as
  markup, the error leaves \<open>generate_trip_pdf\<close>, and no block sequence is built.
\<close>

theorem story_not_built_counterexample:
  "generate_trip_pdf markup_plain clean_text plan_intro (ustr ''<b>'') (ustr ''B'') date0 date0 =
     Inl ValueError"
  by (simp add: generate_trip_pdf_built not_ok_title)

text \<open>
  Claim C8. In a story that is built the summary table is the third flowable and its last
  row reads "Duration" and the number \<open>(end_date - start_date).days + 1\<close> followed by
  " days"; for equal dates the number is 1.
\<close>

theorem duration_row:
  "generate_trip_pdf markup_ok clean plan a b s e = Inr story \<Longrightarrow>
   table_rows (story ! 2) ! 5 =
     [Str (ustr ''Duration''), Str (str_int (days_between e s + 1) @ ustr '' days'')] \<and>
   days_between s s + 1 = 1"
proof -
  assume g: "generate_trip_pdf markup_ok clean plan a b s e = Inr story"
  have "story ! 2 =
      create_overview_table \<lparr>start_location = a, destination = b, start_date = s, end_date = e,
        duration = days_between e s + 1\<rparr>"
    using generate_trip_pdf_Inr[OF g] unfolding story_split by (simp add: nth_append)
  then show ?thesis by (simp add: table_rows_def create_overview_table_def days_between_def)
qed

text \<open>From 2024-01-01 to 2024-01-03, both valid dates, the row reads "3 days".\<close>

theorem duration_row_witness:
  "valid_date \<lparr>year = 2024, month = 1, day = 1\<rparr> \<and> valid_date \<lparr>year = 2024, month = 1, day = 3\<rparr> \<and>
   days_between \<lparr>year = 2024, month = 1, day = 3\<rparr> \<lparr>year = 2024, month = 1, day = 1\<rparr> + 1 = 3 \<and>
   map_sum id (\<lambda>story. table_rows (story ! 2) ! 5)
     (generate_trip_pdf markup_plain clean_text [] [] []
        \<lparr>year = 2024, month = 1, day = 1\<rparr> \<lparr>year = 2024, month = 1, day = 3\<rparr>) =
     Inr [Str (ustr ''Duration''), Str (ustr ''3 days'')]"
proof -
  let ?s = "\<lparr>year = 2024, month = 1, day = 1\<rparr>" and ?e = "\<lparr>year = 2024, month = 1, day = 3\<rparr>"
  have d: "days_between ?e ?s + 1 = 3"
    by (simp add: days_between_def toordinal_def days_before_year_def days_before_month_def is_leap_def)
  have v: "valid_date ?s \<and> valid_date ?e"
    by (simp add: valid_date_def days_in_month_def is_leap_def)
  have "story_ok markup_plain clean_text [] [] [] ?s ?e"
    by (simp add: story_ok_def re_split_def day_ok_def strip_def markup_plain_def ustr_def
          str_date_def zero_pad_def str_int_def str_nat.simps)
  then have g: "generate_trip_pdf markup_plain clean_text [] [] [] ?s ?e =
      Inr (story_built clean_text [] [] [] ?s ?e)"
    by (simp add: generate_trip_pdf_built)
  have "str_int 3 @ ustr '' days'' = ustr ''3 days''"
    by (simp add: str_int_def str_nat.simps ustr_def)
  then show ?thesis using duration_row[OF g] d v by (simp add: g)
qed

section \<open>The sections of \<open>parse_section\<close>\<close>

lemma parse_hab:
  "parse_section clean_text content_hab = [\<lparr>header = ustr ''H:'', points = [], info = ustr ''b''\<rparr>]"
  by (simp add: content_hab_def parse_eval char_eval)

lemma parse_line_keep:
  "\<forall>s\<in>set (sections st). keep s \<Longrightarrow> \<forall>s\<in>set (sections (parse_line clean st raw)). keep s"
  by (auto simp: parse_line_def Let_def)

lemma foldl_parse_line_keep:
  "\<forall>s\<in>set (sections st). keep s \<Longrightarrow>
   \<forall>s\<in>set (sections (foldl (parse_line clean) st raws)). keep s"
proof (induction raws arbitrary: st)
  case Nil
  then show ?case by simp
next
  case (Cons r rs)
  have "\<forall>s\<in>set (sections (parse_line clean st r)). keep s"
    using Cons.prems by (rule parse_line_keep)
  then show ?case using Cons.IH by simp
qed

lemma parse_finish_keep:
  "\<forall>s\<in>set (sections st). keep s \<Longrightarrow> \<forall>s\<in>set (parse_finish st). keep s"
  by (auto simp: parse_finish_def Let_def)

text \<open>
  Claim C6. Every section that \<open>parse_section\<close> returns has a header that is not empty or
  at least one point, for every input and every cleaning pass; so lines that are only
  info text never make a section of their own.
\<close>

theorem parse_section_sections_kept:
  "\<forall>s\<in>set (parse_section clean content). header s \<noteq> [] \<or> points s \<noteq> []"
proof -
  have "\<forall>s\<in>set (sections parse_init). keep s" by (simp add: parse_init_def)
  then have "\<forall>s\<in>set (sections (foldl (parse_line clean) parse_init (split_on NL content))). keep s"
    by (rule foldl_parse_line_keep)
  then have "\<forall>s\<in>set (parse_section clean content). keep s"
    unfolding parse_section_def by (rule parse_finish_keep)
  then show ?thesis by (simp add: keep_def)
qed

theorem parse_section_sections_kept_witness:
  "parse_section clean_text content_hab = [\<lparr>header = ustr ''H:'', points = [], info = ustr ''b''\<rparr>] \<and>
   header (hd (parse_section clean_text content_hab)) \<noteq> []"
  using parse_section_sections_kept[of clean_text content_hab] by (simp add: parse_hab)



lemma split_on_ne: "split_on sep s \<noteq> []"
  by (induction s) (auto split: list.splits)

lemma hd_split_on: "hd (split_on sep s) = takeWhile (\<lambda>c. c \<noteq> sep) s"
  using split_on_ne by (induction s) (auto split: list.splits)

lemma is_header_iff:
  "is_header l \<longleftrightarrow> COLON \<in> set l \<and> \<not> list_ex isdigit (takeWhile (\<lambda>c. c \<noteq> COLON) l)"
  by (simp add: is_header_def hd_split_on)

lemma is_header_ne: "is_header l \<Longrightarrow> l \<noteq> []"
  by (auto simp: is_header_def)

lemma is_bullet_iff: "is_bullet l \<longleftrightarrow> l \<noteq> [] \<and> hd l \<in> {BULLET, HYPHEN, ASTERISK}"
  by (cases l) (auto simp: is_bullet_def startswith_def)

lemma parse_line_header:
  "is_header (strip raw) \<Longrightarrow>
   parse_line clean st raw =
     \<lparr>sections = (if keep (current_section st) then sections st @ [current_section st] else sections st),
      current_section = new_section (strip raw), info_block = []\<rparr>"
  by (simp add: parse_line_def Let_def is_header_ne)

lemma parse_line_other:
  "\<not> is_header (strip raw) \<Longrightarrow>
   sections (parse_line clean st raw) = sections st \<and>
   header (current_section (parse_line clean st raw)) = header (current_section st)"
  by (simp add: parse_line_def Let_def)

lemma parse_line_headers:
  "headers_of (parse_line clean st raw) =
     headers_of st @ (if is_header (strip raw) then [strip raw] else [])"
proof (cases "is_header (strip raw)")
  case True
  then show ?thesis
    by (auto simp: parse_line_header headers_of_def keep_def new_section_def is_header_ne)
next
  case False
  then show ?thesis using parse_line_other[OF False, of clean st] by (simp add: headers_of_def)
qed

lemma foldl_parse_line_headers:
  "headers_of (foldl (parse_line clean) st raws) = headers_of st @ filter is_header (map strip raws)"
  by (induction raws arbitrary: st) (simp_all add: parse_line_headers)

lemma parse_finish_headers: "filter (\<lambda>h. h \<noteq> []) (map header (parse_finish st)) = headers_of st"
  by (auto simp: parse_finish_def Let_def headers_of_def keep_def)

lemma parse_section_headers:
  "filter (\<lambda>h. h \<noteq> []) (map header (parse_section clean content)) =
     filter is_header (map strip (split_on NL content))"
  by (simp add: parse_section_def parse_finish_headers foldl_parse_line_headers)
     (simp add: headers_of_def parse_init_def new_section_def)

lemma parse_line_points:
  "points_of (parse_line clean st raw) =
     points_of st @ filter (\<lambda>p. p \<noteq> []) (map (stored_point clean)
        (filter (\<lambda>l. \<not> is_header l \<and> is_bullet l) [strip raw]))"
proof (cases "is_header (strip raw)")
  case True
  then show ?thesis
    by (auto simp: parse_line_header points_of_def keep_def new_section_def)
next
  case False
  have nb: "\<not> is_bullet []" by (simp add: is_bullet_iff)
  show ?thesis using False nb
    by (auto simp: parse_line_def Let_def points_of_def stored_point_def)
qed

lemma foldl_parse_line_points:
  "points_of (foldl (parse_line clean) st raws) =
     points_of st @ filter (\<lambda>p. p \<noteq> []) (map (stored_point clean)
        (filter (\<lambda>l. \<not> is_header l \<and> is_bullet l) (map strip raws)))"
proof (induction raws arbitrary: st)
  case Nil
  then show ?case by simp
next
  case (Cons r rs)
  show ?case using Cons.IH[of "parse_line clean st r"] parse_line_points[of clean st r] by simp
qed

lemma parse_finish_points: "concat (map points (parse_finish st)) = points_of st"
  by (auto simp: parse_finish_def Let_def points_of_def keep_def)

lemma parse_section_points:
  "concat (map points (parse_section clean content)) =
     filter (\<lambda>p. p \<noteq> []) (map (stored_point clean)
        (filter (\<lambda>l. \<not> is_header l \<and> is_bullet l) (map strip (split_on NL content))))"
  by (simp add: parse_section_def parse_finish_points foldl_parse_line_points)
     (simp add: points_of_def parse_init_def new_section_def)

text \<open>
  Claim C2. A line that is not blank opens a section exactly when it contains a colon and
  no character before its first colon is a digit. Over a whole content, the non-empty
  headers of the sections returned are the stripped lines of that kind, in order. In one
  step of the loop such a line appends the current section to the output when that has a
  header or points, and starts a new current section with the line as header, no points,
  no info and an empty info buffer; any other line that is not blank leaves the output
  and the current header as they are, so a line like "10:30 Check-in" is no header.
\<close>

theorem header_line_iff_colon_without_digit:
  "filter (\<lambda>h. h \<noteq> []) (map header (parse_section clean content)) =
     filter (\<lambda>l. COLON \<in> set l \<and> \<not> list_ex isdigit (takeWhile (\<lambda>c. c \<noteq> COLON) l))
       (map strip (split_on NL content)) \<and>
   (strip raw \<noteq> [] \<longrightarrow>
     (if COLON \<in> set (strip raw) \<and> \<not> list_ex isdigit (takeWhile (\<lambda>c. c \<noteq> COLON) (strip raw))
      then parse_line clean st raw =
        \<lparr>sections = (if header (current_section st) \<noteq> [] \<or> points (current_section st) \<noteq> []
                      then sections st @ [current_section st] else sections st),
         current_section = \<lparr>header = strip raw, points = [], info = []\<rparr>,
         info_block = []\<rparr>
      else sections (parse_line clean st raw) = sections st \<and>
           header (current_section (parse_line clean st raw)) = header (current_section st)))"
proof -
  have a: "filter (\<lambda>h. h \<noteq> []) (map header (parse_section clean content)) =
     filter (\<lambda>l. COLON \<in> set l \<and> \<not> list_ex isdigit (takeWhile (\<lambda>c. c \<noteq> COLON) l))
       (map strip (split_on NL content))"
  proof -
    have "is_header = (\<lambda>l. COLON \<in> set l \<and> \<not> list_ex isdigit (takeWhile (\<lambda>c. c \<noteq> COLON) l))"
      by (rule ext) (rule is_header_iff)
    then show ?thesis using parse_section_headers[of clean content] by simp
  qed
  have b: "is_header (strip raw) \<Longrightarrow> parse_line clean st raw =
        \<lparr>sections = (if header (current_section st) \<noteq> [] \<or> points (current_section st) \<noteq> []
                      then sections st @ [current_section st] else sections st),
         current_section = \<lparr>header = strip raw, points = [], info = []\<rparr>,
         info_block = []\<rparr>"
    by (simp add: parse_line_header keep_def new_section_def)
  show ?thesis using a b parse_line_other[of raw clean st] by (simp add: is_header_iff)
qed

theorem header_line_iff_colon_without_digit_witness:
  "strip (ustr ''10:30 Check-in'') \<noteq> [] \<and>
   sections (parse_line clean_text parse_init (ustr ''10:30 Check-in'')) = [] \<and>
   header (current_section (parse_line clean_text parse_init (ustr ''10:30 Check-in''))) = [] \<and>
   filter (\<lambda>h. h \<noteq> []) (map header (parse_section clean_text content_hotel)) =
     [ustr ''Accommodation: boutique hotel'']"
proof -
  have n: "strip (ustr ''10:30 Check-in'') \<noteq> []" by (simp add: strip_def char_eval)
  have d: "list_ex isdigit (takeWhile (\<lambda>c. c \<noteq> COLON) (strip (ustr ''10:30 Check-in'')))"
    by (simp add: strip_def char_eval)
  have h: "filter (\<lambda>l. COLON \<in> set l \<and> \<not> list_ex isdigit (takeWhile (\<lambda>c. c \<noteq> COLON) l))
       (map strip (split_on NL content_hotel)) = [ustr ''Accommodation: boutique hotel'']"
    by (simp add: content_hotel_def strip_def char_eval)
  show ?thesis
    using header_line_iff_colon_without_digit[of clean_text content_hotel "ustr ''10:30 Check-in''" parse_init]
      n d h
    by (simp add: parse_init_def new_section_def)
qed

section \<open>The info field of a section\<close>

lemma parse_line_step: "parse_line clean st raw = line_step clean st (strip raw)"
  by (simp add: parse_line_def line_step_def Let_def)

lemma foldl_parse_line_step:
  "foldl (parse_line clean) st raws = foldl (line_step clean) st (map strip raws)"
  by (induction raws arbitrary: st) (simp_all add: parse_line_step)

lemma blocks_from_ne: "blocks_from ib bd \<noteq> []"
  by (induction bd arbitrary: ib) auto

lemma last_info_Cons:
  "last_info i (b # bs) = last_info (if b \<noteq> [] then py_join [SPACE] b else i) bs"
  by (simp add: last_info_def)

lemma last_info_snoc:
  "last_info i (bs @ [b]) = (if b \<noteq> [] then py_join [SPACE] b else last_info i bs)"
  by (simp add: last_info_def)

lemma last_info_butlast:
  "bs \<noteq> [] \<Longrightarrow> last_info i bs = (if last bs \<noteq> [] then py_join [SPACE] (last bs) else last_info i (butlast bs))"
  using last_info_snoc[of i "butlast bs" "last bs"] by simp

lemma body_fold:
  "\<forall>l\<in>set bd. \<not> is_header l \<Longrightarrow>
   foldl (line_step clean) st bd =
     st\<lparr>current_section := (current_section st)
           \<lparr>points := points (current_section st) @ body_points clean bd,
            info := last_info (info (current_section st)) (butlast (blocks_from (info_block st) bd))\<rparr>,
        info_block := last (blocks_from (info_block st) bd)\<rparr>"
proof (induction bd arbitrary: st)
  case Nil
  then show ?case by (simp add: body_points_def last_info_def)
next
  case (Cons l ls)
  have nh: "\<not> is_header l" and rest: "\<forall>l\<in>set ls. \<not> is_header l" using Cons.prems by auto
  note IH = Cons.IH[OF rest]
  show ?case
  proof (cases "l = []")
    case True
    have nb: "\<not> is_bullet []" by (simp add: is_bullet_def startswith_def)
    show ?thesis
    proof (cases "info_block st = []")
      case e: True
      then have "line_step clean st l = st" using True by (simp add: line_step_def)
      then show ?thesis using True e nb IH[of st]
        by (simp add: blocks_from_ne last_info_Cons body_points_def)
    next
      case ne: False
      let ?st1 = "st\<lparr>current_section := (current_section st)\<lparr>info := py_join [SPACE] (info_block st)\<rparr>,
              info_block := []\<rparr>"
      have "line_step clean st l = ?st1" using True ne by (simp add: line_step_def)
      then show ?thesis using True ne nb IH[of ?st1]
        by (simp add: blocks_from_ne last_info_Cons body_points_def)
    qed
  next
    case False
    show ?thesis
    proof (cases "is_bullet l")
      case True
      then have ni: "\<not> info_line l" by (simp add: info_line_def)
      show ?thesis
      proof (cases "stored_point clean l = []")
        case e: True
        then have "line_step clean st l = st" using False nh True
          by (simp add: line_step_def stored_point_def)
        then show ?thesis using False ni True e IH[of st] by (simp add: body_points_def)
      next
        case ne: False
        let ?st1 = "st\<lparr>current_section :=
                (current_section st)\<lparr>points := points (current_section st) @ [stored_point clean l]\<rparr>\<rparr>"
        have "line_step clean st l = ?st1" using False nh True ne
          by (simp add: line_step_def stored_point_def)
        then show ?thesis using False ni True ne IH[of ?st1] by (simp add: body_points_def)
      qed
    next
      case nbl: False
      then have il: "info_line l" using False nh by (simp add: info_line_def)
      let ?st1 = "st\<lparr>info_block := info_block st @ [l]\<rparr>"
      have "line_step clean st l = ?st1" using False nh nbl by (simp add: line_step_def)
      then show ?thesis using False il nbl IH[of ?st1] by (simp add: body_points_def)
    qed
  qed
qed

lemma header_groups_struct:
  "header_groups ls = (pre, gs) \<Longrightarrow>
   ls = pre @ concat (map (\<lambda>g. fst g # snd g) gs) \<and> (\<forall>l\<in>set pre. \<not> is_header l) \<and> groups_ok gs"
proof (induction ls arbitrary: pre gs)
  case Nil
  then show ?case by (simp add: groups_ok_def)
next
  case (Cons l ls)
  obtain pre' gs' where h: "header_groups ls = (pre', gs')" by (cases "header_groups ls") auto
  note IH = Cons.IH[OF h]
  show ?case
  proof (cases "is_header l")
    case True
    then have "pre = []" "gs = (l, pre') # gs'" using Cons.prems h by auto
    then show ?thesis using IH True by (auto simp: groups_ok_def)
  next
    case False
    then have "pre = l # pre'" "gs = gs'" using Cons.prems h by auto
    then show ?thesis using IH False by auto
  qed
qed

lemma line_step_header:
  "is_header h \<Longrightarrow>
   line_step clean st h =
     \<lparr>sections = sections st @ (if keep (current_section st) then [current_section st] else []),
      current_section = new_section h, info_block = []\<rparr>"
  by (simp add: line_step_def is_header_ne)

lemma parse_finish_body:
  "\<forall>l\<in>set bd. \<not> is_header l \<Longrightarrow>
   parse_finish (foldl (line_step clean) st bd) =
     (let cur = (current_section st)
           \<lparr>points := points (current_section st) @ body_points clean bd,
            info := last_info (info (current_section st)) (blocks_from (info_block st) bd)\<rparr>
      in sections st @ (if keep cur then [cur] else []))"
  by (simp add: body_fold parse_finish_def Let_def keep_def
        last_info_butlast[OF blocks_from_ne, of _ "info_block st" bd])

lemma groups_fold:
  "groups_ok gs \<Longrightarrow>
   parse_finish (foldl (line_step clean) st (concat (map (\<lambda>g. fst g # snd g) gs))) =
     (if gs = [] then parse_finish st
      else sections st @ (if keep (current_section st) then [current_section st] else []) @
           group_sections flushed_info clean gs)"
proof (induction gs arbitrary: st)
  case Nil
  then show ?case by simp
next
  case (Cons g gs)
  obtain h bd where g: "g = (h, bd)" by (cases g) auto
  have hh: "is_header h" and nb: "\<forall>l\<in>set bd. \<not> is_header l" and ok: "groups_ok gs"
    using Cons.prems g by (auto simp: groups_ok_def)
  define st1 where "st1 = line_step clean st h"
  define st2 where "st2 = foldl (line_step clean) st1 bd"
  have s1: "sections st1 = sections st @ (if keep (current_section st) then [current_section st] else [])"
    and c1: "current_section st1 = new_section h" and i1: "info_block st1 = []"
    unfolding st1_def line_step_header[OF hh] by simp_all
  have fold: "foldl (line_step clean) st (concat (map (\<lambda>g. fst g # snd g) (g # gs)))
      = foldl (line_step clean) st2 (concat (map (\<lambda>g. fst g # snd g) gs))"
    using g by (simp add: st1_def st2_def)
  show ?case
  proof (cases "gs = []")
    case True
    have "parse_finish st2 = sections st1 @ [\<lparr>header = h, points = body_points clean bd, info = flushed_info True bd\<rparr>]"
      unfolding st2_def using parse_finish_body[OF nb, of clean st1] is_header_ne[OF hh]
      by (simp add: c1 i1 new_section_def keep_def flushed_info_def Let_def)
    then show ?thesis using True g fold by (simp add: s1)
  next
    case False
    have s2: "sections st2 = sections st1"
      and c2: "current_section st2 = \<lparr>header = h, points = body_points clean bd, info = flushed_info False bd\<rparr>"
      unfolding st2_def body_fold[OF nb, of clean st1]
      by (simp_all add: c1 i1 new_section_def flushed_info_def Let_def)
    have "parse_finish (foldl (line_step clean) st2 (concat (map (\<lambda>g. fst g # snd g) gs)))
        = sections st2 @ (if keep (current_section st2) then [current_section st2] else []) @
           group_sections flushed_info clean gs"
      using Cons.IH[OF ok, of st2] False by simp
    moreover have "keep (current_section st2)" using is_header_ne[OF hh] by (simp add: c2 keep_def)
    ultimately show ?thesis using False g fold by (simp add: s2 c2 s1)
  qed
qed

lemma parse_section_sections_with:
  "parse_section clean content = sections_with flushed_info clean (map strip (split_on NL content))"
proof -
  let ?ls = "map strip (split_on NL content)"
  obtain pre gs where hg: "header_groups ?ls = (pre, gs)" by (cases "header_groups ?ls") auto
  have s: "?ls = pre @ concat (map (\<lambda>g. fst g # snd g) gs)"
    and np: "\<forall>l\<in>set pre. \<not> is_header l" and ok: "groups_ok gs"
    using header_groups_struct[OF hg] by auto
  define st1 where "st1 = foldl (line_step clean) parse_init pre"
  have "foldl (line_step clean) parse_init ?ls =
      foldl (line_step clean) st1 (concat (map (\<lambda>g. fst g # snd g) gs))"
    unfolding st1_def by (subst s) simp
  then have ps: "parse_section clean content =
      parse_finish (foldl (line_step clean) st1 (concat (map (\<lambda>g. fst g # snd g) gs)))"
    unfolding parse_section_def foldl_parse_line_step by simp
  show ?thesis
  proof (cases "gs = []")
    case True
    have "parse_finish st1 = (if body_points clean pre \<noteq> []
           then [\<lparr>header = [], points = body_points clean pre, info = flushed_info True pre\<rparr>] else [])"
      unfolding st1_def using parse_finish_body[OF np, of clean parse_init]
      by (simp add: parse_init_def new_section_def keep_def flushed_info_def Let_def)
    then show ?thesis using ps True hg by (simp add: sections_with_def)
  next
    case False
    have s1: "sections st1 = []"
      and c1: "current_section st1 = \<lparr>header = [], points = body_points clean pre, info = flushed_info False pre\<rparr>"
      unfolding st1_def body_fold[OF np, of clean parse_init]
      by (simp_all add: parse_init_def new_section_def flushed_info_def Let_def)
    have "parse_section clean content =
        sections st1 @ (if keep (current_section st1) then [current_section st1] else []) @
           group_sections flushed_info clean gs"
      using groups_fold[OF ok, of clean st1] False ps by simp
    then show ?thesis using False hg
      by (simp add: s1 c1 sections_with_def keep_def)
  qed
qed

lemma paragraphs_ne: "paragraphs ls \<noteq> []"
  by (induction ls) (auto split: list.splits)

lemma blocks_from_paragraphs:
  "blocks_from ib bd =
     (ib @ filter info_line (hd (paragraphs bd))) # map (filter info_line) (tl (paragraphs bd))"
proof (induction bd arbitrary: ib)
  case Nil
  then show ?case by simp
next
  case (Cons l ls)
  obtain p ps where p: "paragraphs ls = p # ps" using paragraphs_ne by (cases "paragraphs ls") auto
  have "\<not> info_line []" by (simp add: info_line_def)
  then show ?case using Cons.IH p by (auto simp: info_line_def)
qed

lemma blocks_from_Nil: "blocks_from [] bd = map (filter info_line) (paragraphs bd)"
  using blocks_from_paragraphs[of "[]" bd] paragraphs_ne[of bd]
  by (cases "paragraphs bd") auto

lemma flushed_info_final: "flushed_info True bd = paragraph_info bd"
  by (simp add: flushed_info_def paragraph_info_def blocks_from_Nil)

lemma flushed_info_closed:
  "filter info_line (last (paragraphs bd)) = [] \<Longrightarrow> flushed_info final bd = paragraph_info bd"
proof -
  assume c: "filter info_line (last (paragraphs bd)) = []"
  let ?bs = "map (filter info_line) (paragraphs bd)"
  have ne: "?bs \<noteq> []" using paragraphs_ne by simp
  have "last ?bs = []" using c paragraphs_ne by (simp add: last_map)
  then have "last_info [] ?bs = last_info [] (butlast ?bs)"
    using last_info_butlast[OF ne, of "[]"] by simp
  then show ?thesis by (cases final) (simp_all add: flushed_info_def paragraph_info_def blocks_from_Nil)
qed

lemma group_sections_closed:
  "list_all (\<lambda>bd. filter info_line (last (paragraphs bd)) = []) (butlast (map snd gs)) \<Longrightarrow>
   group_sections flushed_info clean gs = group_sections (\<lambda>final. paragraph_info) clean gs"
proof (induction gs)
  case Nil
  then show ?case by simp
next
  case (Cons g gs)
  obtain h bd where g: "g = (h, bd)" by (cases g) auto
  show ?case
  proof (cases "gs = []")
    case True
    then show ?thesis using g by (simp add: flushed_info_final)
  next
    case False
    then have "filter info_line (last (paragraphs bd)) = []"
      and "list_all (\<lambda>bd. filter info_line (last (paragraphs bd)) = []) (butlast (map snd gs))"
      using Cons.prems g by auto
    then show ?thesis using Cons.IH g by (simp add: flushed_info_closed)
  qed
qed

lemmas lines_eval = is_header_def is_bullet_def info_line_def strip_def startswith_def

lemma lines_hab: "map strip (split_on NL content_hab) = [ustr ''H:'', ustr ''a'', [], ustr ''b'']"
  by (simp add: content_hab_def strip_def char_eval)

lemma lines_two:
  "map strip (split_on NL content_two) =
     [ustr ''H:'', ustr ''a'', [], ustr ''b'', [], ustr ''G:'', ustr ''- x'']"
  by (simp add: content_two_def strip_def char_eval)

text \<open>
  Claim C5, as amended. Take a content in which every info line of a section that is
  followed by another section has a blank line between it and the next header line. Then
  the sections \<open>parse_section\<close> returns are the sections of the groups of its lines, and
  the info field of each is the space-join of the info lines of the last paragraph of its
  body that holds any (paragraphs being the runs of lines between blank lines), and the
  empty string when its body has no info line.
\<close>

theorem info_is_last_paragraph:
  "blocks_closed (map strip (split_on NL content)) \<Longrightarrow>
   parse_section clean content =
     sections_with (\<lambda>final. paragraph_info) clean (map strip (split_on NL content))"
proof -
  let ?ls = "map strip (split_on NL content)"
  assume bc: "blocks_closed ?ls"
  obtain pre gs where hg: "header_groups ?ls = (pre, gs)" by (cases "header_groups ?ls") auto
  have all: "list_all (\<lambda>bd. filter info_line (last (paragraphs bd)) = []) (butlast (pre # map snd gs))"
    using bc hg by (simp add: blocks_closed_def)
  have "sections_with flushed_info clean ?ls = sections_with (\<lambda>final. paragraph_info) clean ?ls"
  proof (cases "gs = []")
    case True
    then show ?thesis using hg by (simp add: sections_with_def flushed_info_final)
  next
    case False
    then have "filter info_line (last (paragraphs pre)) = []"
      and "list_all (\<lambda>bd. filter info_line (last (paragraphs bd)) = []) (butlast (map snd gs))"
      using all by auto
    then show ?thesis using hg False
      by (simp add: sections_with_def flushed_info_closed group_sections_closed)
  qed
  then show ?thesis by (simp add: parse_section_sections_with)
qed

theorem info_is_last_paragraph_witness:
  "blocks_closed (map strip (split_on NL content_two)) \<and>
   parse_section clean_text content_two =
     [\<lparr>header = ustr ''H:'', points = [], info = ustr ''b''\<rparr>,
      \<lparr>header = ustr ''G:'', points = [ustr ''x''], info = []\<rparr>]"
proof -
  have bc: "blocks_closed (map strip (split_on NL content_two))"
    unfolding lines_two by (simp add: blocks_closed_def lines_eval char_eval)
  have "sections_with (\<lambda>final. paragraph_info) clean_text (map strip (split_on NL content_two)) =
     [\<lparr>header = ustr ''H:'', points = [], info = ustr ''b''\<rparr>,
      \<lparr>header = ustr ''G:'', points = [ustr ''x''], info = []\<rparr>]"
    unfolding lines_two
    by (simp add: sections_with_def paragraph_info_def last_info_def body_points_def
          stored_point_def lstrip_chars_def clean_text_def lines_eval char_eval)
  then show ?thesis using info_is_last_paragraph[OF bc, of clean_text] bc by simp
qed

text \<open>
  The claim as written fails on the content of the lines "H:", "a", a blank line and "b":
  the section's info lines are "a" and "b", and its info field is "b", not "a b".
\<close>

theorem info_overwritten_counterexample:
  "parse_section clean_text content_hab = [\<lparr>header = ustr ''H:'', points = [], info = ustr ''b''\<rparr>] \<and>
   sections_with (\<lambda>final. claimed_info) clean_text (map strip (split_on NL content_hab)) =
     [\<lparr>header = ustr ''H:'', points = [], info = ustr ''a b''\<rparr>]"
  unfolding lines_hab parse_hab
  by (simp add: sections_with_def claimed_info_def body_points_def lines_eval char_eval)

text \<open>
  Where a header line follows an info line with no blank line between them, the open
  block is not stored: on the lines "H:", "a", "G:" the first section has no info.
\<close>

lemma info_before_header_not_stored:
  "parse_section clean_text content_cut =
     [\<lparr>header = ustr ''H:'', points = [], info = []\<rparr>,
      \<lparr>header = ustr ''G:'', points = [], info = []\<rparr>]"
  by (simp add: content_cut_def parse_eval char_eval)

text \<open>
  The body of the day of the end-to-end scenario: two sections, "Morning:" with its two
  points and "Evening:" with the info "Free time.".
\<close>

lemma parse_section_scenario:
  "parse_section clean_text content_scenario =
     [\<lparr>header = ustr ''Morning:'', points = [ustr ''Breakfast'', ustr ''City tour''], info = []\<rparr>,
      \<lparr>header = ustr ''Evening:'', points = [], info = ustr ''Free time.''\<rparr>]"
  by (simp add: content_scenario_def parse_eval char_eval)

section \<open>The points of a section\<close>

lemma group_sections_points:
  "map points (group_sections info_fn clean gs) = map (\<lambda>g. body_points clean (snd g)) gs"
  by (induction gs) auto

lemma parse_section_points_by_group:
  "map points (parse_section clean content) =
     (case header_groups (map strip (split_on NL content)) of
        (pre, gs) \<Rightarrow>
          (if body_points clean pre \<noteq> [] then [body_points clean pre] else []) @
          map (\<lambda>g. body_points clean (snd g)) gs)"
  by (simp add: parse_section_sections_with sections_with_def group_sections_points
        split: prod.splits)

lemma parse_line_bullet:
  "strip raw \<noteq> [] \<Longrightarrow> \<not> is_header (strip raw) \<Longrightarrow> is_bullet (strip raw) \<Longrightarrow>
   parse_line clean st raw =
     (if stored_point clean (strip raw) \<noteq> []
      then st\<lparr>current_section :=
                (current_section st)\<lparr>points := points (current_section st) @
                                                     [stored_point clean (strip raw)]\<rparr>\<rparr>
      else st)"
  by (simp add: parse_line_def Let_def stored_point_def)

lemma lines_ab: "map strip (split_on NL content_ab) = [ustr ''A:'', ustr ''- x'', ustr ''B:'']"
  by (simp add: content_ab_def strip_def char_eval)

text \<open>
  Claim C9, as amended. A line that is not blank, is no header line and starts with a
  bullet marker is a bullet line. In one step of the loop the whole leading run of marker
  characters and spaces is removed from such a line, the cleaning pass is applied, and
  the result is appended to the points of the current section when it is not empty;
  otherwise the state is left as it is. Over a whole content, the points of each section
  returned are the points so stored for the bullet lines of its own group of lines (the
  lines from its header line to the next header line, or the lines before the first
  header line), in order; all stored points together are those of all bullet lines in
  order, and none is the empty string.
\<close>

theorem stored_points_lstrip_clean:
  "(strip raw \<noteq> [] \<and> \<not> is_header (strip raw) \<and> hd (strip raw) \<in> {BULLET, HYPHEN, ASTERISK} \<longrightarrow>
      parse_line clean st raw =
        (if clean (dropWhile (\<lambda>c. c \<in> {BULLET, HYPHEN, ASTERISK, SPACE}) (strip raw)) \<noteq> []
         then st\<lparr>current_section :=
                   (current_section st)
                     \<lparr>points := points (current_section st) @
                        [clean (dropWhile (\<lambda>c. c \<in> {BULLET, HYPHEN, ASTERISK, SPACE}) (strip raw))]\<rparr>\<rparr>
         else st)) \<and>
   map points (parse_section clean content) =
     (case header_groups (map strip (split_on NL content)) of
        (pre, gs) \<Rightarrow>
          (if body_points clean pre \<noteq> [] then [body_points clean pre] else []) @
          map (\<lambda>g. body_points clean (snd g)) gs) \<and>
   body_points clean bd =
     filter (\<lambda>p. p \<noteq> [])
       (map (\<lambda>l. clean (dropWhile (\<lambda>c. c \<in> {BULLET, HYPHEN, ASTERISK, SPACE}) l))
         (filter (\<lambda>l. l \<noteq> [] \<and> hd l \<in> {BULLET, HYPHEN, ASTERISK}) bd)) \<and>
   concat (map points (parse_section clean content)) =
     filter (\<lambda>p. p \<noteq> [])
       (map (\<lambda>l. clean (dropWhile (\<lambda>c. c \<in> {BULLET, HYPHEN, ASTERISK, SPACE}) l))
         (filter (\<lambda>l. \<not> is_header l \<and> l \<noteq> [] \<and> hd l \<in> {BULLET, HYPHEN, ASTERISK})
           (map strip (split_on NL content)))) \<and>
   (\<forall>s\<in>set (parse_section clean content). [] \<notin> set (points s))"
proof -
  have sp: "stored_point clean = (\<lambda>l. clean (dropWhile (\<lambda>c. c \<in> {BULLET, HYPHEN, ASTERISK, SPACE}) l))"
    by (rule ext) (simp add: stored_point_def lstrip_chars_def)
  have step: "strip raw \<noteq> [] \<and> \<not> is_header (strip raw) \<and> hd (strip raw) \<in> {BULLET, HYPHEN, ASTERISK} \<longrightarrow>
      parse_line clean st raw =
        (if clean (dropWhile (\<lambda>c. c \<in> {BULLET, HYPHEN, ASTERISK, SPACE}) (strip raw)) \<noteq> []
         then st\<lparr>current_section :=
                   (current_section st)
                     \<lparr>points := points (current_section st) @
                        [clean (dropWhile (\<lambda>c. c \<in> {BULLET, HYPHEN, ASTERISK, SPACE}) (strip raw))]\<rparr>\<rparr>
         else st)"
  proof
    assume h: "strip raw \<noteq> [] \<and> \<not> is_header (strip raw) \<and> hd (strip raw) \<in> {BULLET, HYPHEN, ASTERISK}"
    then have b: "is_bullet (strip raw)" by (simp add: is_bullet_iff)
    show "parse_line clean st raw =
        (if clean (dropWhile (\<lambda>c. c \<in> {BULLET, HYPHEN, ASTERISK, SPACE}) (strip raw)) \<noteq> []
         then st\<lparr>current_section :=
                   (current_section st)
                     \<lparr>points := points (current_section st) @
                        [clean (dropWhile (\<lambda>c. c \<in> {BULLET, HYPHEN, ASTERISK, SPACE}) (strip raw))]\<rparr>\<rparr>
         else st)"
      using parse_line_bullet[of raw clean st] h b unfolding sp by simp
  qed
  have bp: "body_points clean bd =
     filter (\<lambda>p. p \<noteq> [])
       (map (\<lambda>l. clean (dropWhile (\<lambda>c. c \<in> {BULLET, HYPHEN, ASTERISK, SPACE}) l))
         (filter (\<lambda>l. l \<noteq> [] \<and> hd l \<in> {BULLET, HYPHEN, ASTERISK}) bd))"
  proof -
    have "is_bullet = (\<lambda>l. l \<noteq> [] \<and> hd l \<in> {BULLET, HYPHEN, ASTERISK})"
      by (rule ext) (rule is_bullet_iff)
    then show ?thesis unfolding body_points_def sp by simp
  qed
  have a: "concat (map points (parse_section clean content)) =
     filter (\<lambda>p. p \<noteq> [])
       (map (\<lambda>l. clean (dropWhile (\<lambda>c. c \<in> {BULLET, HYPHEN, ASTERISK, SPACE}) l))
         (filter (\<lambda>l. \<not> is_header l \<and> l \<noteq> [] \<and> hd l \<in> {BULLET, HYPHEN, ASTERISK})
           (map strip (split_on NL content))))"
    unfolding parse_section_points sp by (simp add: is_bullet_iff)
  have "[] \<notin> set (concat (map points (parse_section clean content)))"
    unfolding a by simp
  then have ne: "\<forall>s\<in>set (parse_section clean content). [] \<notin> set (points s)" by auto
  show ?thesis using step parse_section_points_by_group[of clean content] bp a ne by blast
qed

text \<open>
  On the lines "A:", "- x", "B:" the point "x" belongs to the section "A:"; and the step
  on "- x" from the initial state appends "x" to the current section.
\<close>

theorem stored_points_lstrip_clean_witness:
  "strip (ustr ''- x'') \<noteq> [] \<and> \<not> is_header (strip (ustr ''- x'')) \<and>
   hd (strip (ustr ''- x'')) \<in> {BULLET, HYPHEN, ASTERISK} \<and>
   parse_line clean_text parse_init (ustr ''- x'') =
     parse_init\<lparr>current_section := \<lparr>header = [], points = [ustr ''x''], info = []\<rparr>\<rparr> \<and>
   map points (parse_section clean_text content_ab) = [[ustr ''x''], []] \<and>
   concat (map points (parse_section clean_text content_ab)) = [ustr ''x'']"
proof -
  have h: "strip (ustr ''- x'') \<noteq> [] \<and> \<not> is_header (strip (ustr ''- x'')) \<and>
      hd (strip (ustr ''- x'')) \<in> {BULLET, HYPHEN, ASTERISK}"
    by (simp add: is_header_def strip_def char_eval)
  have c: "clean_text (dropWhile (\<lambda>c. c \<in> {BULLET, HYPHEN, ASTERISK, SPACE}) (strip (ustr ''- x''))) = ustr ''x''"
    by (simp add: clean_text_def strip_def char_eval)
  have g: "(case header_groups (map strip (split_on NL content_ab)) of
        (pre, gs) \<Rightarrow>
          (if body_points clean_text pre \<noteq> [] then [body_points clean_text pre] else []) @
          map (\<lambda>g. body_points clean_text (snd g)) gs) = [[ustr ''x''], []]"
    unfolding lines_ab
    by (simp add: body_points_def stored_point_def lstrip_chars_def clean_text_def
          is_header_def is_bullet_def strip_def startswith_def char_eval)
  have x: "ustr ''x'' \<noteq> []" by (simp add: ustr_def)
  note t = stored_points_lstrip_clean[of "ustr ''- x''" clean_text parse_init content_ab "[]"]
  from t h have "parse_line clean_text parse_init (ustr ''- x'') =
        (if clean_text (dropWhile (\<lambda>c. c \<in> {BULLET, HYPHEN, ASTERISK, SPACE}) (strip (ustr ''- x''))) \<noteq> []
         then parse_init\<lparr>current_section :=
                   (current_section parse_init)
                     \<lparr>points := points (current_section parse_init) @
                        [clean_text (dropWhile (\<lambda>c. c \<in> {BULLET, HYPHEN, ASTERISK, SPACE}) (strip (ustr ''- x'')))]\<rparr>\<rparr>
         else parse_init)"
    by blast
  then have step: "parse_line clean_text parse_init (ustr ''- x'') =
     parse_init\<lparr>current_section := \<lparr>header = [], points = [ustr ''x''], info = []\<rparr>\<rparr>"
    unfolding c using x by (simp add: parse_init_def new_section_def)
  from t have "map points (parse_section clean_text content_ab) =
      (case header_groups (map strip (split_on NL content_ab)) of
        (pre, gs) \<Rightarrow>
          (if body_points clean_text pre \<noteq> [] then [body_points clean_text pre] else []) @
          map (\<lambda>g. body_points clean_text (snd g)) gs)"
    by blast
  then have pts: "map points (parse_section clean_text content_ab) = [[ustr ''x''], []]"
    unfolding g .
  have "concat (map points (parse_section clean_text content_ab)) = [ustr ''x'']"
    unfolding pts by simp
  then show ?thesis using h step pts by blast
qed

text \<open>
  The claim as written fails twice: from "--x" the point "x" is stored, where removing
  the single leading marker leaves "-x"; and "- Lunch: pasta" starts with a marker but
  is taken as a header, so no point is stored for it.
\<close>

theorem bullet_run_and_header_counterexample:
  "parse_section clean_text (ustr ''--x'') = [\<lparr>header = [], points = [ustr ''x''], info = []\<rparr>] \<and>
   clean_text (strip_one_marker (ustr ''--x'')) = ustr ''-x'' \<and>
   parse_section clean_text (ustr ''- Lunch: pasta'') = [\<lparr>header = ustr ''- Lunch: pasta'', points = [], info = []\<rparr>]"
  by (simp add: parse_eval strip_one_marker_def char_eval)

end
